theory Spec2Isabelle
  imports Main "HOL-Library.Word"
begin

section \<open>The statement tree read by the verifier\<close>

text \<open>
  The verifier of \<^verbatim>\<open>src/pass/verify_gpu_code.cc\<close> reads a statement tree whose node
  classes are declared in headers outside the translated file. The tree is modelled with
  the node kinds the verifier distinguishes and the fields it reads.

  A \<^verbatim>\<open>tvm::Variable\<close> is compared by address (the sets of the verifier hold
  \<^verbatim>\<open>const Variable *\<close>), so a variable carries its \<open>name_hint\<close> and the identity of
  its node.
\<close>

datatype Variable = Variable (name_hint: string) (node_id: nat)

text \<open>
  The target of an attribute annotation is a node reference: a variable, an iteration
  variable (which owns a variable, \<^verbatim>\<open>IterVarNode::var\<close>), or anything else,
  including an undefined reference.
\<close>

datatype NodeRef = VariableNode Variable | IterVarNode (var: Variable) | OtherNode

text \<open>
  Expressions never contain statements, so only the two constant kinds the verifier casts
  to are told apart: \<^verbatim>\<open>IntImm\<close> with its \<^verbatim>\<open>int64_t\<close> value and
  \<^verbatim>\<open>StringImm\<close> with its string.
\<close>

datatype Expr = IntImm "64 word" | StringImm string | OtherExpr

text \<open>
  Statements. \<open>ProducerConsumer\<close>, \<open>Allocate\<close> and \<open>AttrStmt\<close> are the three kinds
  the verifier overrides. For \<open>Allocate\<close> the node carries what the verifier reads from
  it: the buffer variable, \<^verbatim>\<open>op->type.bytes()\<close> (a C++ \<^verbatim>\<open>int\<close>) and
  \<^verbatim>\<open>op->constant_allocation_size()\<close> (an \<^verbatim>\<open>int32_t\<close>), both computed by code
  outside the translated file.

  Modelled from the spec: the default traversal \<^verbatim>\<open>IRVisitor::Visit_\<close> is not among
  the sources; every other statement kind is a node \<open>Other\<close> holding its child
  statements in the order they are visited (none for a leaf statement), and is passed
  through with no state change.
\<close>

datatype Stmt =
    ProducerConsumer (is_producer: bool) Stmt
  | Allocate (buffer_var: Variable) (type_bytes: "32 word")
      (constant_allocation_size: "32 word") Stmt
  | AttrStmt (node: NodeRef) (attr_key: string) (val: Expr) Stmt
  | Other "Stmt list"

text \<open>
  Modelled from the spec: the attribute keys \<^verbatim>\<open>attr::storage_scope\<close> and
  \<^verbatim>\<open>attr::thread_extent\<close> are string constants declared in \<^verbatim>\<open>tvm/ir.h\<close>,
  which is not among the sources.
\<close>

definition storage_scope :: string where
  "storage_scope = ''storage_scope''"

definition thread_extent :: string where
  "thread_extent = ''thread_extent''"

text \<open>
  \<^verbatim>\<open>op->node.as<tvm::Variable>()\<close>: the pointer to the variable, or the null pointer
  (\<open>None\<close>) when the node is of another kind.
\<close>

fun as_Variable :: "NodeRef \<Rightarrow> Variable option" where
  "as_Variable (VariableNode v) = Some v"
| "as_Variable (IterVarNode v) = None"
| "as_Variable OtherNode = None"

section \<open>Faults\<close>

text \<open>
  The source stops without a verdict in two ways: a failed \<^verbatim>\<open>CHECK\<close> (the internal
  error of line 84), and the dereference of the null pointer that a failed
  \<^verbatim>\<open>as<T>()\<close> cast returns (lines 76, 78, 82 and 143), for which the source has no
  guard. The second records which cast came back null.
\<close>

datatype cast = as_StringImm | as_IterVarNode | as_IntImm

datatype fault = CheckFailed | NullDeref cast

section \<open>The verifier object\<close>

text \<open>
  The mutable members of \<^verbatim>\<open>class GPUCodeVerifier\<close> (the trailing underscore of the
  member names is dropped). \<^verbatim>\<open>size_t\<close> is an unsigned 64-bit word: its arithmetic
  wraps around and its order is the unsigned one.
\<close>

record GPUCodeVerifier =
  nest_level :: int
  visited_local_buffers :: "Variable option set"
  visited_shared_buffers :: "Variable option set"
  visited_threads :: "string set"
  local_memory_per_block :: "64 word"
  shared_memory_per_block :: "64 word"
  thread_per_block :: "64 word"
  valid :: bool

text \<open>
  The six bounds are members too; \<^verbatim>\<open>Verify\<close> writes them once before the traversal
  and the visitor only reads them, so they travel as a read-only record.
\<close>

record limits =
  max_local_memory_per_block :: "64 word"
  max_shared_memory_per_block :: "64 word"
  max_thread_per_block :: "64 word"
  max_thread_x :: "64 word"
  max_thread_y :: "64 word"
  max_thread_z :: "64 word"

text \<open>\<^verbatim>\<open>Reset_()\<close>, lines 125 to 133. It leaves \<open>valid\<close> and \<open>nest_level\<close> alone.\<close>

definition Reset :: "GPUCodeVerifier \<Rightarrow> GPUCodeVerifier" where
  "Reset s = s\<lparr>visited_local_buffers := {}, visited_shared_buffers := {},
     local_memory_per_block := 0, shared_memory_per_block := 0,
     visited_threads := {}, thread_per_block := 1\<rparr>"

text \<open>Lines 40 to 43: entering a marker at nest depth 0 resets the statistics.\<close>

definition enter_kernel :: "GPUCodeVerifier \<Rightarrow> GPUCodeVerifier" where
  "enter_kernel s = (if nest_level s = 0 then Reset s else s)"

text \<open>
  Lines 53 to 59: leaving a marker at nest depth 0 ANDs the three per-block checks into
  the verdict, one after the other.
\<close>

definition exit_kernel :: "limits \<Rightarrow> GPUCodeVerifier \<Rightarrow> GPUCodeVerifier" where
  "exit_kernel L s =
     (if nest_level s = 0 then
        s\<lparr>valid := ((valid s \<and> thread_per_block s \<le> max_thread_per_block L)
                     \<and> local_memory_per_block s \<le> max_local_memory_per_block L)
                     \<and> shared_memory_per_block s \<le> max_shared_memory_per_block L\<rparr>
      else s)"

text \<open>
  Lines 65 to 71: the accounting of an allocation, after its subtree has been visited.
  Both factors are signed 32-bit values converted to \<^verbatim>\<open>size_t\<close> (sign extension),
  and the product wraps.
\<close>

definition account_allocation ::
  "Variable \<Rightarrow> 32 word \<Rightarrow> 32 word \<Rightarrow> GPUCodeVerifier \<Rightarrow> GPUCodeVerifier" where
  "account_allocation v bytes count s =
     (if Some v \<in> visited_local_buffers s then
        s\<lparr>local_memory_per_block := local_memory_per_block s + scast count * scast bytes\<rparr>
      else if Some v \<in> visited_shared_buffers s then
        s\<lparr>shared_memory_per_block := shared_memory_per_block s + scast count * scast bytes\<rparr>
      else s)"

text \<open>
  Lines 75 to 80: the classification of a storage-scope annotation. The value is cast to
  \<^verbatim>\<open>StringImm\<close> and dereferenced with no test.
\<close>

definition classify_scope :: "NodeRef \<Rightarrow> Expr \<Rightarrow> GPUCodeVerifier \<Rightarrow> fault + GPUCodeVerifier" where
  "classify_scope n v s =
     (case v of
        StringImm scope \<Rightarrow>
          if scope = ''local'' then
            Inr (s\<lparr>visited_local_buffers := insert (as_Variable n) (visited_local_buffers s)\<rparr>)
          else if scope = ''shared'' then
            Inr (s\<lparr>visited_shared_buffers := insert (as_Variable n) (visited_shared_buffers s)\<rparr>)
          else Inr s
      | IntImm i \<Rightarrow> Inl (NullDeref as_StringImm)
      | OtherExpr \<Rightarrow> Inl (NullDeref as_StringImm))"

text \<open>
  Lines 87 to 102: the counting of a thread extent, once the iteration variable's name
  and the constant extent have been read.
\<close>

definition count_thread :: "limits \<Rightarrow> string \<Rightarrow> 64 word \<Rightarrow> GPUCodeVerifier \<Rightarrow> GPUCodeVerifier" where
  "count_thread L name extent s =
     (if name = ''threadIdx.x'' \<or> name = ''threadIdx.y'' \<or> name = ''threadIdx.z'' then
        if name \<notin> visited_threads s then
          (let s1 = s\<lparr>visited_threads := insert name (visited_threads s),
                       thread_per_block := thread_per_block s * extent\<rparr>
           in if name = ''threadIdx.x'' then s1\<lparr>valid := valid s1 \<and> extent \<le> max_thread_x L\<rparr>
              else if name = ''threadIdx.y'' then s1\<lparr>valid := valid s1 \<and> extent \<le> max_thread_y L\<rparr>
              else if name = ''threadIdx.z'' then s1\<lparr>valid := valid s1 \<and> extent \<le> max_thread_z L\<rparr>
              else s1)
        else s
      else s)"

text \<open>
  Lines 81 to 84: the target is cast to \<^verbatim>\<open>IterVarNode\<close> and dereferenced with no
  test; then the value is cast to \<^verbatim>\<open>IntImm\<close> and the cast is checked.
\<close>

definition thread_extent_step ::
  "limits \<Rightarrow> NodeRef \<Rightarrow> Expr \<Rightarrow> GPUCodeVerifier \<Rightarrow> fault + GPUCodeVerifier" where
  "thread_extent_step L n v s =
     (case n of
        IterVarNode iv \<Rightarrow>
          (case v of
             IntImm extent \<Rightarrow> Inr (count_thread L (name_hint iv) extent s)
           | StringImm str \<Rightarrow> Inl CheckFailed
           | OtherExpr \<Rightarrow> Inl CheckFailed)
      | VariableNode x \<Rightarrow> Inl (NullDeref as_IterVarNode)
      | OtherNode \<Rightarrow> Inl (NullDeref as_IterVarNode))"

text \<open>Lines 75 to 103: what an attribute annotation does before its subtree is visited.\<close>

definition attr_step ::
  "limits \<Rightarrow> NodeRef \<Rightarrow> string \<Rightarrow> Expr \<Rightarrow> GPUCodeVerifier \<Rightarrow> fault + GPUCodeVerifier" where
  "attr_step L n key v s =
     (if key = storage_scope then classify_scope n v s
      else if key = thread_extent then thread_extent_step L n v s
      else Inr s)"

section \<open>The traversal\<close>

text \<open>
  \<^verbatim>\<open>Visit\<close> dispatches on the node kind to the three overrides (lines 39 to 105); a
  fault in a subtree ends the traversal.
\<close>

fun Visit :: "limits \<Rightarrow> Stmt \<Rightarrow> GPUCodeVerifier \<Rightarrow> fault + GPUCodeVerifier"
  and Visit_children :: "limits \<Rightarrow> Stmt list \<Rightarrow> GPUCodeVerifier \<Rightarrow> fault + GPUCodeVerifier"
where
  "Visit L (ProducerConsumer producer body) s =
     (if producer then
        (case Visit L body ((enter_kernel s)\<lparr>nest_level := nest_level (enter_kernel s) + 1\<rparr>) of
           Inl e \<Rightarrow> Inl e
         | Inr s2 \<Rightarrow> Inr (exit_kernel L (s2\<lparr>nest_level := nest_level s2 - 1\<rparr>)))
      else
        (case Visit L body (enter_kernel s) of
           Inl e \<Rightarrow> Inl e
         | Inr s2 \<Rightarrow> Inr (exit_kernel L s2)))"
| "Visit L (Allocate v bytes count body) s =
     (case Visit L body s of
        Inl e \<Rightarrow> Inl e
      | Inr s1 \<Rightarrow> Inr (account_allocation v bytes count s1))"
| "Visit L (AttrStmt n key v body) s =
     (case attr_step L n key v s of
        Inl e \<Rightarrow> Inl e
      | Inr s1 \<Rightarrow> Visit L body s1)"
| "Visit L (Other children) s = Visit_children L children s"
| "Visit_children L [] s = Inr s"
| "Visit_children L (c # cs) s =
     (case Visit L c s of
        Inl e \<Rightarrow> Inl e
      | Inr s1 \<Rightarrow> Visit_children L cs s1)"

text \<open>
  \<^verbatim>\<open>Verify\<close>, lines 18 to 37, on the verifier object \<open>this\<close>. The casts of the six
  \<^verbatim>\<open>int64_t\<close> bounds to \<^verbatim>\<open>size_t\<close> keep the bits.
\<close>

definition Verify :: "GPUCodeVerifier \<Rightarrow> Stmt \<Rightarrow> limits \<Rightarrow> fault + bool" where
  "Verify this stmt L =
     (case Visit L stmt (Reset this) of
        Inl e \<Rightarrow> Inl e
      | Inr s \<Rightarrow> Inr (valid s))"

text \<open>
  A freshly constructed verifier: \<open>nest_level\<close> is 0 and \<open>valid\<close> is true by their member
  initialisers; the other members are not initialised before \<^verbatim>\<open>Reset_\<close> writes them,
  and are given the values it writes.
\<close>

definition fresh_verifier :: GPUCodeVerifier where
  "fresh_verifier = \<lparr>nest_level = 0, visited_local_buffers = {}, visited_shared_buffers = {},
     visited_threads = {}, local_memory_per_block = 0, shared_memory_per_block = 0,
     thread_per_block = 1, valid = True\<rparr>"

section \<open>The driver\<close>

definition INT64_MAX :: "64 word" where
  "INT64_MAX = 9223372036854775807"

text \<open>
  The lambda \<^verbatim>\<open>get_int\<close>, lines 140 to 147: a present entry is cast to
  \<^verbatim>\<open>IntImm\<close> and dereferenced with no test.
\<close>

definition get_int :: "(string \<rightharpoonup> Expr) \<Rightarrow> string \<Rightarrow> 64 word \<Rightarrow> fault + 64 word" where
  "get_int constraints key def =
     (case constraints key of
        Some (IntImm i) \<Rightarrow> Inr i
      | Some (StringImm str) \<Rightarrow> Inl (NullDeref as_IntImm)
      | Some OtherExpr \<Rightarrow> Inl (NullDeref as_IntImm)
      | None \<Rightarrow> Inr def)"

text \<open>Lines 149 to 154: the six lookups in their order; the first fault ends the call.\<close>

definition resolve_limits :: "(string \<rightharpoonup> Expr) \<Rightarrow> fault + limits" where
  "resolve_limits constraints =
     (case get_int constraints ''max_local_memory_per_block'' INT64_MAX of Inl e \<Rightarrow> Inl e | Inr ml \<Rightarrow>
      case get_int constraints ''max_shared_memory_per_block'' INT64_MAX of Inl e \<Rightarrow> Inl e | Inr ms \<Rightarrow>
      case get_int constraints ''max_thread_per_block'' INT64_MAX of Inl e \<Rightarrow> Inl e | Inr mt \<Rightarrow>
      case get_int constraints ''max_thread_x'' INT64_MAX of Inl e \<Rightarrow> Inl e | Inr mx \<Rightarrow>
      case get_int constraints ''max_thread_y'' INT64_MAX of Inl e \<Rightarrow> Inl e | Inr my \<Rightarrow>
      case get_int constraints ''max_thread_z'' INT64_MAX of Inl e \<Rightarrow> Inl e | Inr mz \<Rightarrow>
        Inr \<lparr>max_local_memory_per_block = ml, max_shared_memory_per_block = ms,
             max_thread_per_block = mt, max_thread_x = mx, max_thread_y = my,
             max_thread_z = mz\<rparr>)"

text \<open>\<^verbatim>\<open>VerifyGPUCode\<close>, lines 136 to 163.\<close>

definition VerifyGPUCode :: "Stmt \<Rightarrow> (string \<rightharpoonup> Expr) \<Rightarrow> fault + bool" where
  "VerifyGPUCode stmt constraints =
     (case resolve_limits constraints of
        Inl e \<Rightarrow> Inl e
      | Inr L \<Rightarrow> Verify fresh_verifier stmt L)"

section \<open>Notions used to state the properties\<close>

text \<open>AND a boolean into the verdict of a state, and of the outcome of a traversal.\<close>

definition and_valid :: "bool \<Rightarrow> GPUCodeVerifier \<Rightarrow> GPUCodeVerifier" where
  "and_valid b s = s\<lparr>valid := b \<and> valid s\<rparr>"

definition lift_valid :: "bool \<Rightarrow> fault + GPUCodeVerifier \<Rightarrow> fault + GPUCodeVerifier" where
  "lift_valid b r = (case r of Inl e \<Rightarrow> Inl e | Inr s \<Rightarrow> Inr (and_valid b s))"

text \<open>The state in which a marker's subtree is visited when the marker is met at depth 0.\<close>

definition region_entry :: "bool \<Rightarrow> GPUCodeVerifier \<Rightarrow> GPUCodeVerifier" where
  "region_entry producer s = (if producer then (Reset s)\<lparr>nest_level := 1\<rparr> else Reset s)"

text \<open>The three per-block checks made when a marker is left at depth 0.\<close>

definition block_checks :: "limits \<Rightarrow> GPUCodeVerifier \<Rightarrow> bool list" where
  "block_checks L s =
     [thread_per_block s \<le> max_thread_per_block L,
      local_memory_per_block s \<le> max_local_memory_per_block L,
      shared_memory_per_block s \<le> max_shared_memory_per_block L]"

text \<open>The bound of a thread dimension, by name.\<close>

definition is_thread_name :: "string \<Rightarrow> bool" where
  "is_thread_name name \<longleftrightarrow>
     name = ''threadIdx.x'' \<or> name = ''threadIdx.y'' \<or> name = ''threadIdx.z''"

definition max_thread_dim :: "limits \<Rightarrow> string \<Rightarrow> 64 word" where
  "max_thread_dim L name =
     (if name = ''threadIdx.x'' then max_thread_x L
      else if name = ''threadIdx.y'' then max_thread_y L
      else max_thread_z L)"

text \<open>
  Well-formed trees: every storage-scope annotation carries a string constant, and every
  thread-extent annotation targets an iteration variable and carries an integer constant.
\<close>

fun scope_strings :: "Stmt \<Rightarrow> bool" where
  "scope_strings (ProducerConsumer producer body) = scope_strings body"
| "scope_strings (Allocate v bytes count body) = scope_strings body"
| "scope_strings (AttrStmt n key v body) =
     ((if key = storage_scope then (case v of StringImm scope \<Rightarrow> True | IntImm i \<Rightarrow> False | OtherExpr \<Rightarrow> False)
       else True) \<and> scope_strings body)"
| "scope_strings (Other children) = list_all scope_strings children"

fun extent_typed :: "Stmt \<Rightarrow> bool" where
  "extent_typed (ProducerConsumer producer body) = extent_typed body"
| "extent_typed (Allocate v bytes count body) = extent_typed body"
| "extent_typed (AttrStmt n key v body) =
     ((if key = thread_extent then
         (case n of IterVarNode iv \<Rightarrow> (case v of IntImm e \<Rightarrow> True | StringImm str \<Rightarrow> False | OtherExpr \<Rightarrow> False)
          | VariableNode x \<Rightarrow> False | OtherNode \<Rightarrow> False)
       else True) \<and> extent_typed body)"
| "extent_typed (Other children) = list_all extent_typed children"

definition well_formed :: "Stmt \<Rightarrow> bool" where
  "well_formed t \<longleftrightarrow> scope_strings t \<and> extent_typed t"

text \<open>Trees with no kernel region marker.\<close>

fun no_marker :: "Stmt \<Rightarrow> bool" where
  "no_marker (ProducerConsumer producer body) = False"
| "no_marker (Allocate v bytes count body) = no_marker body"
| "no_marker (AttrStmt n key v body) = no_marker body"
| "no_marker (Other children) = list_all no_marker children"

text \<open>
  Every thread-extent annotation for one of the three counted names has an extent within
  the bound of its dimension.
\<close>

fun extents_within :: "limits \<Rightarrow> Stmt \<Rightarrow> bool" where
  "extents_within L (ProducerConsumer producer body) = extents_within L body"
| "extents_within L (Allocate v bytes count body) = extents_within L body"
| "extents_within L (AttrStmt n key v body) =
     ((case n of
         IterVarNode iv \<Rightarrow>
           (case v of
              IntImm e \<Rightarrow> \<not> (key = thread_extent \<and> is_thread_name (name_hint iv)
                                \<and> \<not> e \<le> max_thread_dim L (name_hint iv))
            | StringImm str \<Rightarrow> True | OtherExpr \<Rightarrow> True)
       | VariableNode x \<Rightarrow> True | OtherNode \<Rightarrow> True) \<and> extents_within L body)"
| "extents_within L (Other children) = list_all (extents_within L) children"

text \<open>
  No storage-scope annotation of the tree classifies the variable \<open>x\<close> as local or shared.
\<close>

fun never_classified :: "Variable \<Rightarrow> Stmt \<Rightarrow> bool" where
  "never_classified x (ProducerConsumer producer body) = never_classified x body"
| "never_classified x (Allocate v bytes count body) = never_classified x body"
| "never_classified x (AttrStmt n key v body) =
     (\<not> (key = storage_scope \<and> as_Variable n = Some x
          \<and> (v = StringImm ''local'' \<or> v = StringImm ''shared''))
      \<and> never_classified x body)"
| "never_classified x (Other children) = list_all (never_classified x) children"

text \<open>The tree without the allocation nodes of the variable \<open>x\<close>.\<close>

fun drop_allocations :: "Variable \<Rightarrow> Stmt \<Rightarrow> Stmt" where
  "drop_allocations x (ProducerConsumer producer body) =
     ProducerConsumer producer (drop_allocations x body)"
| "drop_allocations x (Allocate v bytes count body) =
     (if v = x then drop_allocations x body
      else Allocate v bytes count (drop_allocations x body))"
| "drop_allocations x (AttrStmt n key v body) = AttrStmt n key v (drop_allocations x body)"
| "drop_allocations x (Other children) = Other (map (drop_allocations x) children)"

text \<open>
  The tree without the allocation nodes and the storage-scope annotations (those carrying
  a string constant) that no kernel region marker encloses. A marker's subtree is kept.
\<close>

fun drop_outside :: "Stmt \<Rightarrow> Stmt" where
  "drop_outside (ProducerConsumer producer body) = ProducerConsumer producer body"
| "drop_outside (Allocate v bytes count body) = drop_outside body"
| "drop_outside (AttrStmt n key v body) =
     (case v of
        StringImm scope \<Rightarrow>
          if key = storage_scope then drop_outside body
          else AttrStmt n key v (drop_outside body)
      | IntImm i \<Rightarrow> AttrStmt n key v (drop_outside body)
      | OtherExpr \<Rightarrow> AttrStmt n key v (drop_outside body))"
| "drop_outside (Other children) = Other (map drop_outside children)"

text \<open>The state without its memory statistics.\<close>

definition forget_memory :: "GPUCodeVerifier \<Rightarrow> GPUCodeVerifier" where
  "forget_memory s = s\<lparr>visited_local_buffers := {}, visited_shared_buffers := {},
     local_memory_per_block := 0, shared_memory_per_block := 0\<rparr>"

definition forget_result :: "fault + GPUCodeVerifier \<Rightarrow> fault + GPUCodeVerifier" where
  "forget_result r = (case r of Inl e \<Rightarrow> Inl e | Inr s \<Rightarrow> Inr (forget_memory s))"

text \<open>
  The results of the bound checks a traversal performs, in the order it performs them.
  This list is written from the description of the traversal and never reads the verdict:
  the three per-block checks when a marker is left at depth 0, and the per-dimension
  check when a thread name is counted.
\<close>

definition exit_checks :: "limits \<Rightarrow> GPUCodeVerifier \<Rightarrow> bool list" where
  "exit_checks L s = (if nest_level s = 0 then block_checks L s else [])"

definition attr_checks :: "limits \<Rightarrow> NodeRef \<Rightarrow> string \<Rightarrow> Expr \<Rightarrow> GPUCodeVerifier \<Rightarrow> bool list" where
  "attr_checks L n key v s =
     (case n of
        IterVarNode iv \<Rightarrow>
          (case v of
             IntImm e \<Rightarrow>
               if key \<noteq> storage_scope \<and> key = thread_extent \<and> is_thread_name (name_hint iv)
                  \<and> name_hint iv \<notin> visited_threads s
               then [e \<le> max_thread_dim L (name_hint iv)] else []
           | StringImm str \<Rightarrow> [] | OtherExpr \<Rightarrow> [])
      | VariableNode x \<Rightarrow> [] | OtherNode \<Rightarrow> [])"

fun bound_checks :: "limits \<Rightarrow> Stmt \<Rightarrow> GPUCodeVerifier \<Rightarrow> bool list"
  and bound_checks_children :: "limits \<Rightarrow> Stmt list \<Rightarrow> GPUCodeVerifier \<Rightarrow> bool list"
where
  "bound_checks L (ProducerConsumer producer body) s =
     (if producer then
        bound_checks L body ((enter_kernel s)\<lparr>nest_level := nest_level (enter_kernel s) + 1\<rparr>) @
        (case Visit L body ((enter_kernel s)\<lparr>nest_level := nest_level (enter_kernel s) + 1\<rparr>) of
           Inl e \<Rightarrow> []
         | Inr s2 \<Rightarrow> exit_checks L (s2\<lparr>nest_level := nest_level s2 - 1\<rparr>))
      else
        bound_checks L body (enter_kernel s) @
        (case Visit L body (enter_kernel s) of
           Inl e \<Rightarrow> []
         | Inr s2 \<Rightarrow> exit_checks L s2))"
| "bound_checks L (Allocate v bytes count body) s = bound_checks L body s"
| "bound_checks L (AttrStmt n key v body) s =
     attr_checks L n key v s @
     (case attr_step L n key v s of
        Inl e \<Rightarrow> []
      | Inr s1 \<Rightarrow> bound_checks L body s1)"
| "bound_checks L (Other children) s = bound_checks_children L children s"
| "bound_checks_children L [] s = []"
| "bound_checks_children L (c # cs) s =
     bound_checks L c s @
     (case Visit L c s of
        Inl e \<Rightarrow> []
      | Inr s1 \<Rightarrow> bound_checks_children L cs s1)"

text \<open>The six limit names that \<^verbatim>\<open>VerifyGPUCode\<close> looks up.\<close>

definition limit_names :: "string list" where
  "limit_names = [''max_local_memory_per_block'', ''max_shared_memory_per_block'',
     ''max_thread_per_block'', ''max_thread_x'', ''max_thread_y'', ''max_thread_z'']"

text \<open>
  Two kernel regions used as examples: one of 32 by 32 threads and one of 16 threads,
  and bounds that allow 512 threads per block.
\<close>

definition wide_region :: Stmt where
  "wide_region =
     ProducerConsumer True
       (AttrStmt (IterVarNode (Variable ''threadIdx.x'' 1)) thread_extent (IntImm 32)
         (AttrStmt (IterVarNode (Variable ''threadIdx.y'' 2)) thread_extent (IntImm 32)
           (Other [])))"

definition narrow_region :: Stmt where
  "narrow_region =
     ProducerConsumer True
       (AttrStmt (IterVarNode (Variable ''threadIdx.x'' 3)) thread_extent (IntImm 16)
         (Other []))"

definition limits_512 :: limits where
  "limits_512 = \<lparr>max_local_memory_per_block = 100, max_shared_memory_per_block = 100,
     max_thread_per_block = 512, max_thread_x = 32, max_thread_y = 32, max_thread_z = 32\<rparr>"

section \<open>Basic facts about the traversal\<close>

lemma nest_level_Reset: "nest_level (Reset s) = nest_level s"
  by (simp add: Reset_def)

lemma nest_level_enter_kernel: "nest_level (enter_kernel s) = nest_level s"
  by (simp add: enter_kernel_def nest_level_Reset)

lemma nest_level_exit_kernel: "nest_level (exit_kernel L s) = nest_level s"
  by (simp add: exit_kernel_def)

lemma nest_level_account_allocation: "nest_level (account_allocation v b c s) = nest_level s"
  by (simp add: account_allocation_def)

lemma nest_level_count_thread: "nest_level (count_thread L name e s) = nest_level s"
  by (simp add: count_thread_def Let_def)

lemma nest_level_attr_step: "attr_step L n key v s = Inr s1 \<Longrightarrow> nest_level s1 = nest_level s"
  by (auto simp: attr_step_def classify_scope_def thread_extent_step_def nest_level_count_thread
      split: if_splits Expr.splits NodeRef.splits)

lemma Visit_nest_level:
  "Visit L t s = Inr s' \<Longrightarrow> nest_level s' = nest_level s"
  "Visit_children L ts s = Inr s' \<Longrightarrow> nest_level s' = nest_level s"
proof (induction L t s and L ts s arbitrary: s' and s' rule: Visit_Visit_children.induct)
  case (1 L producer body s)
  show ?case
  proof (cases producer)
    case True
    with "1.prems" obtain s2 where
      v: "Visit L body ((enter_kernel s)\<lparr>nest_level := nest_level (enter_kernel s) + 1\<rparr>) = Inr s2"
      and s': "s' = exit_kernel L (s2\<lparr>nest_level := nest_level s2 - 1\<rparr>)"
      by (auto split: sum.splits)
    from "1.IH"(1) [OF True v] have "nest_level s2 = nest_level s + 1"
      by (simp add: nest_level_enter_kernel)
    with s' show ?thesis by (simp add: nest_level_exit_kernel)
  next
    case False
    with "1.prems" obtain s2 where
      v: "Visit L body (enter_kernel s) = Inr s2" and s': "s' = exit_kernel L s2"
      by (auto split: sum.splits)
    from "1.IH"(2) [OF False v] have "nest_level s2 = nest_level s"
      by (simp add: nest_level_enter_kernel)
    with s' show ?thesis by (simp add: nest_level_exit_kernel)
  qed
next
  case (2 L v bytes count body s)
  from "2.prems" obtain s1 where
    v: "Visit L body s = Inr s1" and s': "s' = account_allocation v bytes count s1"
    by (auto split: sum.splits)
  from "2.IH" [OF v] s' show ?case by (simp add: nest_level_account_allocation)
next
  case (3 L n key v body s)
  from "3.prems" obtain s1 where
    a: "attr_step L n key v s = Inr s1" and v: "Visit L body s1 = Inr s'"
    by (auto split: sum.splits)
  from "3.IH" [OF a v] nest_level_attr_step [OF a] show ?case by simp
next
  case (4 L children s)
  then show ?case by simp
next
  case (5 L s)
  then show ?case by simp
next
  case (6 L c cs s)
  from "6.prems" obtain s1 where
    c: "Visit L c s = Inr s1" and cs: "Visit_children L cs s1 = Inr s'"
    by (auto split: sum.splits)
  from "6.IH"(1) [OF c] "6.IH"(2) [OF c cs] show ?case by simp
qed

lemma lift_valid_simps [simp]:
  "lift_valid b (Inl e) = Inl e"
  "lift_valid b (Inr s) = Inr (and_valid b s)"
  by (simp_all add: lift_valid_def)

lemma and_valid_enter_kernel: "enter_kernel (and_valid b s) = and_valid b (enter_kernel s)"
  by (simp add: enter_kernel_def and_valid_def Reset_def)

lemma and_valid_exit_kernel: "exit_kernel L (and_valid b s) = and_valid b (exit_kernel L s)"
  by (auto simp: exit_kernel_def and_valid_def)

lemma and_valid_account_allocation:
  "account_allocation v x c (and_valid b s) = and_valid b (account_allocation v x c s)"
  by (simp add: account_allocation_def and_valid_def)

lemma and_valid_count_thread:
  "count_thread L name e (and_valid b s) = and_valid b (count_thread L name e s)"
  by (auto simp: count_thread_def and_valid_def Let_def)

lemma and_valid_classify_scope:
  "classify_scope n v (and_valid b s) = lift_valid b (classify_scope n v s)"
  by (simp add: classify_scope_def and_valid_def split: Expr.splits)

lemma and_valid_thread_extent_step:
  "thread_extent_step L n v (and_valid b s) = lift_valid b (thread_extent_step L n v s)"
  by (simp add: thread_extent_step_def and_valid_count_thread split: Expr.splits NodeRef.splits)

lemma and_valid_attr_step:
  "attr_step L n key v (and_valid b s) = lift_valid b (attr_step L n key v s)"
  by (simp add: attr_step_def and_valid_classify_scope and_valid_thread_extent_step)

lemma and_valid_nest_level_update:
  "(and_valid b s)\<lparr>nest_level := k\<rparr> = and_valid b (s\<lparr>nest_level := k\<rparr>)"
  by (simp add: and_valid_def)

lemma nest_level_and_valid: "nest_level (and_valid b s) = nest_level s"
  by (simp add: and_valid_def)

lemma Visit_and_valid:
  "Visit L t (and_valid b s) = lift_valid b (Visit L t s)"
  "Visit_children L ts (and_valid b s) = lift_valid b (Visit_children L ts s)"
proof (induction L t s and L ts s rule: Visit_Visit_children.induct)
  case (1 L producer body s)
  then show ?case
    by (cases producer)
      (simp_all add: and_valid_enter_kernel and_valid_exit_kernel and_valid_nest_level_update
        nest_level_and_valid split: sum.splits)
next
  case (2 L v bytes count body s)
  then show ?case
    by (simp add: and_valid_account_allocation split: sum.splits)
next
  case (3 L n key v body s)
  then show ?case
    by (simp add: and_valid_attr_step split: sum.splits)
next
  case (4 L children s)
  then show ?case by simp
next
  case (5 L s)
  then show ?case by simp
next
  case (6 L c cs s)
  then show ?case by (simp split: sum.splits)
qed

section \<open>Absent limits\<close>




section \<open>Kernel region markers\<close>

lemma Visit_marker_at_depth_0:
  assumes "nest_level s = 0"
    and "Visit L body (region_entry producer s) = Inr s2"
  shows "Visit L (ProducerConsumer producer body) s =
    Inr (s2\<lparr>nest_level := 0,
             valid := ((valid s2 \<and> thread_per_block s2 \<le> max_thread_per_block L)
                        \<and> local_memory_per_block s2 \<le> max_local_memory_per_block L)
                        \<and> shared_memory_per_block s2 \<le> max_shared_memory_per_block L\<rparr>)"
proof (cases producer)
  case True
  have e: "(enter_kernel s)\<lparr>nest_level := nest_level (enter_kernel s) + 1\<rparr> = region_entry True s"
    using assms(1) by (simp add: enter_kernel_def region_entry_def nest_level_Reset)
  from assms(2) True have v: "Visit L body (region_entry True s) = Inr s2" by simp
  have "nest_level s2 = 1"
    using Visit_nest_level(1) [OF v] by (simp add: region_entry_def)
  then show ?thesis
    using True v by (simp add: e exit_kernel_def)
next
  case False
  have e: "enter_kernel s = region_entry False s"
    using assms(1) by (simp add: enter_kernel_def region_entry_def)
  from assms(2) False have v: "Visit L body (region_entry False s) = Inr s2" by simp
  have "nest_level s2 = 0"
    using Visit_nest_level(1) [OF v] assms(1) by (simp add: region_entry_def nest_level_Reset)
  then show ?thesis
    using False v by (simp add: e exit_kernel_def)
qed

lemmas eval_defs =
  VerifyGPUCode_def resolve_limits_def get_int_def Verify_def fresh_verifier_def
  attr_step_def classify_scope_def thread_extent_step_def count_thread_def
  account_allocation_def enter_kernel_def exit_kernel_def Reset_def
  storage_scope_def thread_extent_def INT64_MAX_def

text \<open>
  Claim C1. When a kernel region marker is met at nest depth 0 and the traversal of its
  subtree returns, the marker returns at depth 0 with the verdict of the subtree ANDed
  with the three checks thread-product \<open>\<le>\<close> max-threads-per-block, local-memory counter
  \<open>\<le>\<close> max-local-memory and shared-memory counter \<open>\<le>\<close> max-shared-memory. A single
  region declaring \<open>threadIdx.x\<close> of extent 32 and \<open>threadIdx.y\<close> of extent 8 is accepted
  under \<open>max_thread_per_block = 256\<close>, \<open>max_thread_x = 32\<close>, \<open>max_thread_y = 16\<close> and
  rejected when \<open>max_thread_per_block = 255\<close>.
\<close>

theorem marker_checks_block_bounds:
  assumes "nest_level s = 0"
    and "Visit L body (region_entry producer s) = Inr s2"
  shows "(\<exists>s'. Visit L (ProducerConsumer producer body) s = Inr s'
            \<and> nest_level s' = 0
            \<and> valid s' = (valid s2
                  \<and> thread_per_block s2 \<le> max_thread_per_block L
                  \<and> local_memory_per_block s2 \<le> max_local_memory_per_block L
                  \<and> shared_memory_per_block s2 \<le> max_shared_memory_per_block L))
    \<and> VerifyGPUCode
         (ProducerConsumer True
           (AttrStmt (IterVarNode (Variable ''threadIdx.x'' 1)) thread_extent (IntImm 32)
             (AttrStmt (IterVarNode (Variable ''threadIdx.y'' 2)) thread_extent (IntImm 8)
               (Other []))))
         [''max_thread_per_block'' \<mapsto> IntImm 256, ''max_thread_x'' \<mapsto> IntImm 32,
          ''max_thread_y'' \<mapsto> IntImm 16] = Inr True
    \<and> VerifyGPUCode
         (ProducerConsumer True
           (AttrStmt (IterVarNode (Variable ''threadIdx.x'' 1)) thread_extent (IntImm 32)
             (AttrStmt (IterVarNode (Variable ''threadIdx.y'' 2)) thread_extent (IntImm 8)
               (Other []))))
         [''max_thread_per_block'' \<mapsto> IntImm 255, ''max_thread_x'' \<mapsto> IntImm 32,
          ''max_thread_y'' \<mapsto> IntImm 16] = Inr False"
proof (intro conjI)
  show "\<exists>s'. Visit L (ProducerConsumer producer body) s = Inr s'
            \<and> nest_level s' = 0
            \<and> valid s' = (valid s2
                  \<and> thread_per_block s2 \<le> max_thread_per_block L
                  \<and> local_memory_per_block s2 \<le> max_local_memory_per_block L
                  \<and> shared_memory_per_block s2 \<le> max_shared_memory_per_block L)"
    by (subst Visit_marker_at_depth_0 [OF assms]) simp
next
  show "VerifyGPUCode
         (ProducerConsumer True
           (AttrStmt (IterVarNode (Variable ''threadIdx.x'' 1)) thread_extent (IntImm 32)
             (AttrStmt (IterVarNode (Variable ''threadIdx.y'' 2)) thread_extent (IntImm 8)
               (Other []))))
         [''max_thread_per_block'' \<mapsto> IntImm 256, ''max_thread_x'' \<mapsto> IntImm 32,
          ''max_thread_y'' \<mapsto> IntImm 16] = Inr True"
    by (simp add: eval_defs)
next
  show "VerifyGPUCode
         (ProducerConsumer True
           (AttrStmt (IterVarNode (Variable ''threadIdx.x'' 1)) thread_extent (IntImm 32)
             (AttrStmt (IterVarNode (Variable ''threadIdx.y'' 2)) thread_extent (IntImm 8)
               (Other []))))
         [''max_thread_per_block'' \<mapsto> IntImm 255, ''max_thread_x'' \<mapsto> IntImm 32,
          ''max_thread_y'' \<mapsto> IntImm 16] = Inr False"
    by (simp add: eval_defs)
qed

theorem marker_checks_block_bounds_witness:
  "nest_level fresh_verifier = 0
   \<and> Visit \<lparr>max_local_memory_per_block = 0, max_shared_memory_per_block = 0,
            max_thread_per_block = 0, max_thread_x = 0, max_thread_y = 0, max_thread_z = 0\<rparr>
        (Other []) (region_entry True fresh_verifier) = Inr (region_entry True fresh_verifier)
   \<and> (\<exists>s'. Visit \<lparr>max_local_memory_per_block = 0, max_shared_memory_per_block = 0,
            max_thread_per_block = 0, max_thread_x = 0, max_thread_y = 0, max_thread_z = 0\<rparr>
          (ProducerConsumer True (Other [])) fresh_verifier = Inr s'
        \<and> nest_level s' = 0 \<and> \<not> valid s')"
proof -
  let ?L = "\<lparr>max_local_memory_per_block = 0, max_shared_memory_per_block = 0,
            max_thread_per_block = 0, max_thread_x = 0, max_thread_y = 0, max_thread_z = 0\<rparr>"
  have h1: "nest_level fresh_verifier = 0" by (simp add: fresh_verifier_def)
  have h2: "Visit ?L (Other []) (region_entry True fresh_verifier) = Inr (region_entry True fresh_verifier)"
    by simp
  from marker_checks_block_bounds [OF h1 h2]
  have "\<exists>s'. Visit ?L (ProducerConsumer True (Other [])) fresh_verifier = Inr s'
        \<and> nest_level s' = 0 \<and> \<not> valid s'"
    by (simp add: region_entry_def Reset_def fresh_verifier_def)
  with h1 h2 show ?thesis by blast
qed

section \<open>Independence of top-level regions\<close>

lemma enter_kernel_depth_0:
  "nest_level s = 0 \<Longrightarrow> enter_kernel (s\<lparr>valid := True\<rparr>) = fresh_verifier"
  by (cases s) (simp add: enter_kernel_def Reset_def fresh_verifier_def)

lemma enter_kernel_fresh: "enter_kernel fresh_verifier = fresh_verifier"
  by (simp add: enter_kernel_def Reset_def fresh_verifier_def)

lemma and_valid_self: "and_valid (valid s) (s\<lparr>valid := True\<rparr>) = s"
  by (cases s) (simp add: and_valid_def)

lemma Visit_marker_fresh:
  assumes "nest_level s = 0"
  shows "Visit L (ProducerConsumer producer body) (s\<lparr>valid := True\<rparr>)
       = Visit L (ProducerConsumer producer body) fresh_verifier"
  by (simp add: enter_kernel_depth_0 [OF assms] enter_kernel_fresh)

lemma Visit_marker_isolated:
  assumes "nest_level s = 0"
  shows "Visit L (ProducerConsumer producer body) s
       = lift_valid (valid s) (Visit L (ProducerConsumer producer body) fresh_verifier)"
proof -
  have "Visit L (ProducerConsumer producer body) s
      = Visit L (ProducerConsumer producer body) (and_valid (valid s) (s\<lparr>valid := True\<rparr>))"
    by (simp only: and_valid_self)
  also have "\<dots> = lift_valid (valid s) (Visit L (ProducerConsumer producer body) (s\<lparr>valid := True\<rparr>))"
    by (rule Visit_and_valid(1))
  also have "\<dots> = lift_valid (valid s) (Visit L (ProducerConsumer producer body) fresh_verifier)"
    by (simp only: Visit_marker_fresh [OF assms])
  finally show ?thesis .
qed

lemma and_valid_and_valid: "and_valid a (and_valid b s) = and_valid (a \<and> b) s"
  by (simp add: and_valid_def conj_assoc)

lemma valid_and_valid: "valid (and_valid b s) = (b \<and> valid s)"
  by (simp add: and_valid_def)

lemma Visit_sibling_markers:
  assumes "nest_level s = 0"
    and r1: "Visit L (ProducerConsumer p1 b1) fresh_verifier = Inr r1"
    and r2: "Visit L (ProducerConsumer p2 b2) fresh_verifier = Inr r2"
  shows "Visit L (Other [ProducerConsumer p1 b1, ProducerConsumer p2 b2]) s
       = Inr (and_valid (valid s \<and> valid r1) r2)"
proof -
  have v1: "Visit L (ProducerConsumer p1 b1) s = Inr (and_valid (valid s) r1)"
    by (simp only: Visit_marker_isolated [OF assms(1)] r1 lift_valid_simps)
  have n1: "nest_level (and_valid (valid s) r1) = 0"
    using Visit_nest_level(1) [OF v1] assms(1) by simp
  have v2: "Visit L (ProducerConsumer p2 b2) (and_valid (valid s) r1)
          = Inr (and_valid (valid s \<and> valid r1) r2)"
    by (simp only: Visit_marker_isolated [OF n1] r2 lift_valid_simps valid_and_valid)
  have "Visit L (Other [ProducerConsumer p1 b1, ProducerConsumer p2 b2]) s
      = Visit_children L [ProducerConsumer p1 b1, ProducerConsumer p2 b2] s"
    by (simp only: Visit.simps)
  also have "\<dots> = Inr (and_valid (valid s \<and> valid r1) r2)"
    by (simp only: Visit_children.simps v1 v2 sum.case)
  finally show ?thesis .
qed


text \<open>
  Claim C5. Entering a marker at nest depth 0 resets the accountant state exactly: both
  classification sets and the set of counted thread names are empty, both memory
  counters are 0 and the thread product is 1. Nothing but the verdict passes from what
  was visited before into a top-level region: the region ends in the state it reaches
  from a fresh verifier, with the earlier verdict ANDed in. For two sibling regions the
  second ends in its own state with both verdicts ANDed in; with a violating and a
  compliant region the overall verdict is false in either order, while the compliant
  region alone is accepted.
\<close>

theorem regions_do_not_leak:
  assumes "nest_level s = 0"
    and "Visit L (ProducerConsumer p1 b1) fresh_verifier = Inr r1"
    and "Visit L (ProducerConsumer p2 b2) fresh_verifier = Inr r2"
  shows "enter_kernel s = Reset s
    \<and> visited_local_buffers (Reset s) = {} \<and> visited_shared_buffers (Reset s) = {}
    \<and> visited_threads (Reset s) = {}
    \<and> local_memory_per_block (Reset s) = 0 \<and> shared_memory_per_block (Reset s) = 0
    \<and> thread_per_block (Reset s) = 1
    \<and> Visit L (ProducerConsumer p1 b1) s = Inr (and_valid (valid s) r1)
    \<and> Visit L (Other [ProducerConsumer p1 b1, ProducerConsumer p2 b2]) s
        = Inr (and_valid (valid s \<and> valid r1) r2)
    \<and> VerifyGPUCode (Other [wide_region, narrow_region]) [''max_thread_per_block'' \<mapsto> IntImm 512]
        = Inr False
    \<and> VerifyGPUCode (Other [narrow_region, wide_region]) [''max_thread_per_block'' \<mapsto> IntImm 512]
        = Inr False
    \<and> VerifyGPUCode narrow_region [''max_thread_per_block'' \<mapsto> IntImm 512] = Inr True"
proof -
  have "enter_kernel s = Reset s"
    using assms(1) by (simp add: enter_kernel_def)
  moreover have "visited_local_buffers (Reset s) = {} \<and> visited_shared_buffers (Reset s) = {}
    \<and> visited_threads (Reset s) = {}
    \<and> local_memory_per_block (Reset s) = 0 \<and> shared_memory_per_block (Reset s) = 0
    \<and> thread_per_block (Reset s) = 1"
    by (simp add: Reset_def)
  moreover have "Visit L (ProducerConsumer p1 b1) s = Inr (and_valid (valid s) r1)"
    by (simp only: Visit_marker_isolated [OF assms(1)] assms(2) lift_valid_simps)
  moreover note Visit_sibling_markers [OF assms]
  moreover have "VerifyGPUCode (Other [wide_region, narrow_region])
      [''max_thread_per_block'' \<mapsto> IntImm 512] = Inr False"
    by (simp add: wide_region_def narrow_region_def eval_defs)
  moreover have "VerifyGPUCode (Other [narrow_region, wide_region])
      [''max_thread_per_block'' \<mapsto> IntImm 512] = Inr False"
    by (simp add: wide_region_def narrow_region_def eval_defs)
  moreover have "VerifyGPUCode narrow_region [''max_thread_per_block'' \<mapsto> IntImm 512] = Inr True"
    by (simp add: narrow_region_def eval_defs)
  ultimately show ?thesis by simp
qed

theorem regions_do_not_leak_witness:
  "nest_level fresh_verifier = 0
   \<and> Visit limits_512 wide_region fresh_verifier
       = Inr (fresh_verifier\<lparr>visited_threads := {''threadIdx.y'', ''threadIdx.x''},
                thread_per_block := 1024, valid := False\<rparr>)
   \<and> Visit limits_512 narrow_region fresh_verifier
       = Inr (fresh_verifier\<lparr>visited_threads := {''threadIdx.x''}, thread_per_block := 16\<rparr>)
   \<and> Visit limits_512 (Other [wide_region, narrow_region]) fresh_verifier
       = Inr (fresh_verifier\<lparr>visited_threads := {''threadIdx.x''}, thread_per_block := 16,
                valid := False\<rparr>)"
proof -
  let ?V = "AttrStmt (IterVarNode (Variable ''threadIdx.x'' 1)) thread_extent (IntImm 32)
         (AttrStmt (IterVarNode (Variable ''threadIdx.y'' 2)) thread_extent (IntImm 32)
           (Other []))"
  let ?K = "AttrStmt (IterVarNode (Variable ''threadIdx.x'' 3)) thread_extent (IntImm 16)
         (Other [])"
  let ?r1 = "fresh_verifier\<lparr>visited_threads := {''threadIdx.y'', ''threadIdx.x''},
                thread_per_block := 1024, valid := False\<rparr>"
  let ?r2 = "fresh_verifier\<lparr>visited_threads := {''threadIdx.x''}, thread_per_block := 16\<rparr>"
  have h1: "nest_level fresh_verifier = 0" by (simp add: fresh_verifier_def)
  have h2: "Visit limits_512 (ProducerConsumer True ?V) fresh_verifier = Inr ?r1"
    by (simp add: limits_512_def eval_defs)
  have h3: "Visit limits_512 (ProducerConsumer True ?K) fresh_verifier = Inr ?r2"
    by (simp add: limits_512_def eval_defs)
  from regions_do_not_leak [OF h1 h2 h3]
  have sib: "Visit limits_512 (Other [ProducerConsumer True ?V, ProducerConsumer True ?K]) fresh_verifier
       = Inr (and_valid (valid fresh_verifier \<and> valid ?r1) ?r2)"
    by (elim conjE)
  have r: "and_valid (valid fresh_verifier \<and> valid ?r1) ?r2
       = fresh_verifier\<lparr>visited_threads := {''threadIdx.x''}, thread_per_block := 16,
                valid := False\<rparr>"
    by (simp add: and_valid_def fresh_verifier_def)
  show ?thesis
    unfolding wide_region_def narrow_region_def
    using h1 h2 h3 sib r by (simp only: simp_thms)
qed

section \<open>The verdict\<close>

lemma valid_exit_kernel:
  "valid (exit_kernel L s) = (valid s \<and> list_all (\<lambda>b. b) (exit_checks L s))"
  by (simp add: exit_kernel_def exit_checks_def block_checks_def)

lemma valid_enter_kernel: "valid (enter_kernel s) = valid s"
  by (simp add: enter_kernel_def Reset_def)

lemma valid_account_allocation: "valid (account_allocation v b c s) = valid s"
  by (simp add: account_allocation_def)

lemma valid_count_thread:
  "valid (count_thread L name e s) =
     (valid s \<and> (is_thread_name name \<and> name \<notin> visited_threads s \<longrightarrow> e \<le> max_thread_dim L name))"
  by (auto simp: count_thread_def is_thread_name_def max_thread_dim_def Let_def)

lemma storage_scope_neq_thread_extent: "storage_scope \<noteq> thread_extent"
  by (simp add: storage_scope_def thread_extent_def)

lemma valid_attr_step:
  assumes "attr_step L n key v s = Inr s1"
  shows "valid s1 = (valid s \<and> list_all (\<lambda>b. b) (attr_checks L n key v s))"
proof (cases "key = storage_scope")
  case True
  with assms have "classify_scope n v s = Inr s1" by (simp add: attr_step_def)
  then have "valid s1 = valid s"
    by (auto simp: classify_scope_def split: Expr.splits if_splits)
  moreover have "attr_checks L n key v s = []"
    using True by (simp add: attr_checks_def split: NodeRef.splits Expr.splits)
  ultimately show ?thesis by simp
next
  case False
  show ?thesis
  proof (cases "key = thread_extent")
    case True
    with False assms have t: "thread_extent_step L n v s = Inr s1" by (simp add: attr_step_def)
    then obtain iv e where n: "n = IterVarNode iv" and v: "v = IntImm e"
      and s1: "s1 = count_thread L (name_hint iv) e s"
      by (auto simp: thread_extent_step_def split: NodeRef.splits Expr.splits)
    show ?thesis
      using False True by (auto simp: n v s1 valid_count_thread attr_checks_def)
  next
    case nt: False
    with False assms have "s1 = s" by (simp add: attr_step_def)
    moreover have "attr_checks L n key v s = []"
      using nt by (simp add: attr_checks_def split: NodeRef.splits Expr.splits)
    ultimately show ?thesis by simp
  qed
qed

lemma Visit_valid_is_conjunction:
  "Visit L t s = Inr s' \<Longrightarrow> valid s' = (valid s \<and> list_all (\<lambda>b. b) (bound_checks L t s))"
  "Visit_children L ts s = Inr s' \<Longrightarrow>
     valid s' = (valid s \<and> list_all (\<lambda>b. b) (bound_checks_children L ts s))"
proof (induction L t s and L ts s arbitrary: s' and s' rule: Visit_Visit_children.induct)
  case (1 L producer body s)
  show ?case
  proof (cases producer)
    case True
    let ?s1 = "(enter_kernel s)\<lparr>nest_level := nest_level (enter_kernel s) + 1\<rparr>"
    from "1.prems" True obtain s2 where
      v: "Visit L body ?s1 = Inr s2"
      and s': "s' = exit_kernel L (s2\<lparr>nest_level := nest_level s2 - 1\<rparr>)"
      by (auto split: sum.splits)
    from "1.IH"(1) [OF True v]
    have "valid s2 = (valid s \<and> list_all (\<lambda>b. b) (bound_checks L body ?s1))"
      by (simp add: valid_enter_kernel)
    then show ?thesis
      using True v s' by (simp add: valid_exit_kernel conj_assoc)
  next
    case False
    from "1.prems" False obtain s2 where
      v: "Visit L body (enter_kernel s) = Inr s2" and s': "s' = exit_kernel L s2"
      by (auto split: sum.splits)
    from "1.IH"(2) [OF False v]
    have "valid s2 = (valid s \<and> list_all (\<lambda>b. b) (bound_checks L body (enter_kernel s)))"
      by (simp add: valid_enter_kernel)
    then show ?thesis
      using False v s' by (simp add: valid_exit_kernel conj_assoc)
  qed
next
  case (2 L v bytes count body s)
  from "2.prems" obtain s1 where
    v: "Visit L body s = Inr s1" and s': "s' = account_allocation v bytes count s1"
    by (auto split: sum.splits)
  from "2.IH" [OF v] s' show ?case by (simp add: valid_account_allocation)
next
  case (3 L n key v body s)
  from "3.prems" obtain s1 where
    a: "attr_step L n key v s = Inr s1" and v: "Visit L body s1 = Inr s'"
    by (auto split: sum.splits)
  from "3.IH" [OF a v] valid_attr_step [OF a] show ?case
    by (simp add: a conj_assoc)
next
  case (4 L children s)
  then show ?case by simp
next
  case (5 L s)
  then show ?case by simp
next
  case (6 L c cs s)
  from "6.prems" obtain s1 where
    c: "Visit L c s = Inr s1" and cs: "Visit_children L cs s1 = Inr s'"
    by (auto split: sum.splits)
  from "6.IH"(1) [OF c] "6.IH"(2) [OF c cs] show ?case
    by (simp add: c conj_assoc)
qed


lemma exit_checks_and_valid: "exit_checks L (and_valid b s) = exit_checks L s"
  by (simp add: exit_checks_def block_checks_def and_valid_def)

lemma attr_checks_and_valid: "attr_checks L n key v (and_valid b s) = attr_checks L n key v s"
  by (simp add: attr_checks_def and_valid_def split: NodeRef.splits Expr.splits)

lemma bound_checks_and_valid:
  "bound_checks L t (and_valid b s) = bound_checks L t s"
  "bound_checks_children L ts (and_valid b s) = bound_checks_children L ts s"
proof (induction L t s and L ts s rule: Visit_Visit_children.induct)
  case (1 L producer body s)
  then show ?case
    by (cases producer)
      (simp_all add: and_valid_enter_kernel and_valid_nest_level_update nest_level_and_valid
        Visit_and_valid exit_checks_and_valid split: sum.splits)
next
  case (2 L v bytes count body s)
  then show ?case by simp
next
  case (3 L n key v body s)
  then show ?case
    by (simp add: attr_checks_and_valid and_valid_attr_step split: sum.splits)
next
  case (4 L children s)
  then show ?case by simp
next
  case (5 L s)
  then show ?case by simp
next
  case (6 L c cs s)
  then show ?case
    by (simp add: Visit_and_valid split: sum.splits)
qed

lemma Reset_fresh_verifier: "Reset fresh_verifier = fresh_verifier"
  by (simp add: Reset_def fresh_verifier_def)

text \<open>
  Claim C8. The verdict of a fresh verifier is true and \<open>Reset_\<close> does not touch it.
  Over any traversal that returns, a false verdict stays false; the traversal from a
  state whose verdict is false reaches the same state as from the same state with any
  other verdict, up to the verdict, and performs the same bound checks (nothing is
  skipped after the first failure); and the final verdict is the initial one ANDed with
  every bound check performed. What \<open>Verify\<close> returns on a fresh verifier is the AND of
  every bound check performed over the whole tree.
\<close>

theorem verdict_is_conjunction_of_checks:
  assumes "Visit L t s = Inr s'"
  shows "valid fresh_verifier
    \<and> valid (Reset s) = valid s
    \<and> (\<not> valid s \<longrightarrow> \<not> valid s')
    \<and> Visit L t (and_valid False s) = Inr (and_valid False s')
    \<and> bound_checks L t (and_valid False s) = bound_checks L t s
    \<and> valid s' = (valid s \<and> list_all (\<lambda>b. b) (bound_checks L t s))
    \<and> Verify fresh_verifier t L =
        (case Visit L t fresh_verifier of
           Inl e \<Rightarrow> Inl e
         | Inr r \<Rightarrow> Inr (list_all (\<lambda>b. b) (bound_checks L t fresh_verifier)))"
proof -
  have c: "valid s' = (valid s \<and> list_all (\<lambda>b. b) (bound_checks L t s))"
    by (rule Visit_valid_is_conjunction(1) [OF assms])
  have "valid fresh_verifier" by (simp add: fresh_verifier_def)
  moreover have "valid (Reset s) = valid s" by (simp add: Reset_def)
  moreover from c have "\<not> valid s \<longrightarrow> \<not> valid s'" by simp
  moreover have "Visit L t (and_valid False s) = Inr (and_valid False s')"
    by (simp only: Visit_and_valid(1) assms lift_valid_simps)
  moreover have "bound_checks L t (and_valid False s) = bound_checks L t s"
    by (rule bound_checks_and_valid(1))
  moreover note c
  moreover have "Verify fresh_verifier t L =
        (case Visit L t fresh_verifier of
           Inl e \<Rightarrow> Inl e
         | Inr r \<Rightarrow> Inr (list_all (\<lambda>b. b) (bound_checks L t fresh_verifier)))"
  proof (cases "Visit L t fresh_verifier")
    case (Inl e)
    then show ?thesis by (simp add: Verify_def Reset_fresh_verifier)
  next
    case (Inr r)
    from Visit_valid_is_conjunction(1) [OF Inr]
    have "valid r = list_all (\<lambda>b. b) (bound_checks L t fresh_verifier)"
      by (simp add: fresh_verifier_def)
    with Inr show ?thesis by (simp add: Verify_def Reset_fresh_verifier)
  qed
  ultimately show ?thesis by (simp only: simp_thms)
qed

theorem verdict_is_conjunction_of_checks_witness:
  "Visit limits_512 narrow_region (fresh_verifier\<lparr>valid := False\<rparr>)
     = Inr (fresh_verifier\<lparr>visited_threads := {''threadIdx.x''}, thread_per_block := 16,
              valid := False\<rparr>)
   \<and> \<not> valid (fresh_verifier\<lparr>valid := False\<rparr>)
   \<and> bound_checks limits_512 narrow_region (fresh_verifier\<lparr>valid := False\<rparr>)
       = [True, True, True, True]
   \<and> \<not> valid (fresh_verifier\<lparr>visited_threads := {''threadIdx.x''}, thread_per_block := 16,
              valid := False\<rparr>)"
proof -
  let ?s = "fresh_verifier\<lparr>valid := False\<rparr>"
  let ?s' = "fresh_verifier\<lparr>visited_threads := {''threadIdx.x''}, thread_per_block := 16,
              valid := False\<rparr>"
  have h: "Visit limits_512 narrow_region ?s = Inr ?s'"
    by (simp add: narrow_region_def limits_512_def eval_defs)
  have n: "\<not> valid ?s" by simp
  have b: "bound_checks limits_512 narrow_region ?s = [True, True, True, True]"
    by (simp add: narrow_region_def limits_512_def eval_defs exit_checks_def block_checks_def
        attr_checks_def is_thread_name_def max_thread_dim_def)
  from verdict_is_conjunction_of_checks [OF h] have "\<not> valid ?s \<longrightarrow> \<not> valid ?s'"
    by (elim conjE)
  with n have "\<not> valid ?s'" by (rule rev_mp)
  with h n b show ?thesis by (simp only: simp_thms)
qed

section \<open>Thread extents\<close>

















section \<open>Allocations\<close>

lemma unclassified_enter_kernel:
  "Some x \<notin> visited_local_buffers s \<Longrightarrow> Some x \<notin> visited_local_buffers (enter_kernel s)"
  "Some x \<notin> visited_shared_buffers s \<Longrightarrow> Some x \<notin> visited_shared_buffers (enter_kernel s)"
  by (simp_all add: enter_kernel_def Reset_def)

lemma buffers_exit_kernel:
  "visited_local_buffers (exit_kernel L s) = visited_local_buffers s"
  "visited_shared_buffers (exit_kernel L s) = visited_shared_buffers s"
  by (simp_all add: exit_kernel_def)

lemma buffers_account_allocation:
  "visited_local_buffers (account_allocation v b c s) = visited_local_buffers s"
  "visited_shared_buffers (account_allocation v b c s) = visited_shared_buffers s"
  by (simp_all add: account_allocation_def)

lemma buffers_count_thread:
  "visited_local_buffers (count_thread L name e s) = visited_local_buffers s"
  "visited_shared_buffers (count_thread L name e s) = visited_shared_buffers s"
  by (simp_all add: count_thread_def Let_def)

lemma unclassified_attr_step:
  assumes "attr_step L n key v s = Inr s1"
    and "\<not> (key = storage_scope \<and> as_Variable n = Some x
          \<and> (v = StringImm ''local'' \<or> v = StringImm ''shared''))"
    and "Some x \<notin> visited_local_buffers s" and "Some x \<notin> visited_shared_buffers s"
  shows "Some x \<notin> visited_local_buffers s1 \<and> Some x \<notin> visited_shared_buffers s1"
proof (cases "key = storage_scope")
  case True
  with assms(1) have "classify_scope n v s = Inr s1" by (simp add: attr_step_def)
  with assms(2-4) True show ?thesis
    by (auto simp: classify_scope_def split: Expr.splits if_splits)
next
  case False
  with assms(1) have "s1 = s \<or> (\<exists>name e. s1 = count_thread L name e s)"
    by (auto simp: attr_step_def thread_extent_step_def split: if_splits Expr.splits NodeRef.splits)
  with assms(3,4) show ?thesis by (auto simp: buffers_count_thread)
qed

lemma Visit_keeps_unclassified:
  "Visit L t s = Inr s' \<Longrightarrow> never_classified x t \<Longrightarrow>
   Some x \<notin> visited_local_buffers s \<Longrightarrow> Some x \<notin> visited_shared_buffers s \<Longrightarrow>
   Some x \<notin> visited_local_buffers s' \<and> Some x \<notin> visited_shared_buffers s'"
  "Visit_children L ts s = Inr s' \<Longrightarrow> list_all (never_classified x) ts \<Longrightarrow>
   Some x \<notin> visited_local_buffers s \<Longrightarrow> Some x \<notin> visited_shared_buffers s \<Longrightarrow>
   Some x \<notin> visited_local_buffers s' \<and> Some x \<notin> visited_shared_buffers s'"
proof (induction L t s and L ts s arbitrary: s' and s' rule: Visit_Visit_children.induct)
  case (1 L producer body s)
  from "1.prems"(2) have nc: "never_classified x body" by simp
  note u = unclassified_enter_kernel(1) [OF "1.prems"(3)] unclassified_enter_kernel(2) [OF "1.prems"(4)]
  show ?case
  proof (cases producer)
    case True
    let ?s1 = "(enter_kernel s)\<lparr>nest_level := nest_level (enter_kernel s) + 1\<rparr>"
    from "1.prems"(1) True obtain s2 where
      v: "Visit L body ?s1 = Inr s2"
      and s': "s' = exit_kernel L (s2\<lparr>nest_level := nest_level s2 - 1\<rparr>)"
      by (auto split: sum.splits)
    from u have "Some x \<notin> visited_local_buffers ?s1" "Some x \<notin> visited_shared_buffers ?s1"
      by simp_all
    from "1.IH"(1) [OF True v nc this] s' show ?thesis
      by (simp add: buffers_exit_kernel)
  next
    case False
    from "1.prems"(1) False obtain s2 where
      v: "Visit L body (enter_kernel s) = Inr s2" and s': "s' = exit_kernel L s2"
      by (auto split: sum.splits)
    from "1.IH"(2) [OF False v nc u] s' show ?thesis
      by (simp add: buffers_exit_kernel)
  qed
next
  case (2 L v bytes count body s)
  from "2.prems"(1) obtain s1 where
    v: "Visit L body s = Inr s1" and s': "s' = account_allocation v bytes count s1"
    by (auto split: sum.splits)
  from "2.prems"(2) have nc: "never_classified x body" by simp
  from "2.IH" [OF v nc "2.prems"(3,4)] s' show ?case
    by (simp add: buffers_account_allocation)
next
  case (3 L n key v body s)
  from "3.prems"(1) obtain s1 where
    a: "attr_step L n key v s = Inr s1" and v: "Visit L body s1 = Inr s'"
    by (auto split: sum.splits)
  from "3.prems"(2) have nc: "never_classified x body"
    and na: "\<not> (key = storage_scope \<and> as_Variable n = Some x
          \<and> (v = StringImm ''local'' \<or> v = StringImm ''shared''))"
    by simp_all
  from unclassified_attr_step [OF a na "3.prems"(3,4)]
  have "Some x \<notin> visited_local_buffers s1" "Some x \<notin> visited_shared_buffers s1"
    by simp_all
  from "3.IH" [OF a v nc this] show ?case .
next
  case (4 L children s)
  then show ?case by simp
next
  case (5 L s)
  then show ?case by simp
next
  case (6 L c cs s)
  from "6.prems"(1) obtain s1 where
    c: "Visit L c s = Inr s1" and cs: "Visit_children L cs s1 = Inr s'"
    by (auto split: sum.splits)
  from "6.prems"(2) have nc: "never_classified x c" and ncs: "list_all (never_classified x) cs"
    by simp_all
  from "6.IH"(1) [OF c nc "6.prems"(3,4)]
  have "Some x \<notin> visited_local_buffers s1" "Some x \<notin> visited_shared_buffers s1"
    by simp_all
  from "6.IH"(2) [OF c cs ncs this] show ?case .
qed

lemma account_allocation_unclassified:
  "Some v \<notin> visited_local_buffers s \<Longrightarrow> Some v \<notin> visited_shared_buffers s \<Longrightarrow>
   account_allocation v bytes count s = s"
  by (simp add: account_allocation_def)

lemma Visit_drop_allocations:
  "never_classified x t \<Longrightarrow>
   Some x \<notin> visited_local_buffers s \<Longrightarrow> Some x \<notin> visited_shared_buffers s \<Longrightarrow>
   Visit L (drop_allocations x t) s = Visit L t s"
  "list_all (never_classified x) ts \<Longrightarrow>
   Some x \<notin> visited_local_buffers s \<Longrightarrow> Some x \<notin> visited_shared_buffers s \<Longrightarrow>
   Visit_children L (map (drop_allocations x) ts) s = Visit_children L ts s"
proof (induction L t s and L ts s rule: Visit_Visit_children.induct)
  case (1 L producer body s)
  from "1.prems"(1) have nc: "never_classified x body" by simp
  note u = unclassified_enter_kernel(1) [OF "1.prems"(2)] unclassified_enter_kernel(2) [OF "1.prems"(3)]
  show ?case
  proof (cases producer)
    case True
    let ?s1 = "(enter_kernel s)\<lparr>nest_level := nest_level (enter_kernel s) + 1\<rparr>"
    from u have "Some x \<notin> visited_local_buffers ?s1" "Some x \<notin> visited_shared_buffers ?s1"
      by simp_all
    from "1.IH"(1) [OF True nc this] True show ?thesis by simp
  next
    case False
    from "1.IH"(2) [OF False nc u] False show ?thesis by simp
  qed
next
  case (2 L v bytes count body s)
  from "2.prems"(1) have nc: "never_classified x body" by simp
  note ih = "2.IH" [OF nc "2.prems"(2,3)]
  show ?case
  proof (cases "v = x")
    case True
    show ?thesis
    proof (cases "Visit L body s")
      case (Inl e)
      with ih True show ?thesis by simp
    next
      case (Inr s1)
      from Visit_keeps_unclassified(1) [OF Inr nc "2.prems"(2,3)]
      have "account_allocation x bytes count s1 = s1"
        by (simp add: account_allocation_unclassified)
      with ih True Inr show ?thesis by simp
    qed
  next
    case False
    with ih show ?thesis by simp
  qed
next
  case (3 L n key v body s)
  from "3.prems"(1) have nc: "never_classified x body"
    and na: "\<not> (key = storage_scope \<and> as_Variable n = Some x
          \<and> (v = StringImm ''local'' \<or> v = StringImm ''shared''))"
    by simp_all
  show ?case
  proof (cases "attr_step L n key v s")
    case (Inl e)
    then show ?thesis by simp
  next
    case (Inr s1)
    from unclassified_attr_step [OF Inr na "3.prems"(2,3)]
    have "Some x \<notin> visited_local_buffers s1" "Some x \<notin> visited_shared_buffers s1"
      by simp_all
    from "3.IH" [OF Inr nc this] Inr show ?thesis by simp
  qed
next
  case (4 L children s)
  then show ?case by simp
next
  case (5 L s)
  then show ?case by simp
next
  case (6 L c cs s)
  from "6.prems"(1) have nc: "never_classified x c" and ncs: "list_all (never_classified x) cs"
    by simp_all
  note ih1 = "6.IH"(1) [OF nc "6.prems"(2,3)]
  show ?case
  proof (cases "Visit L c s")
    case (Inl e)
    with ih1 show ?thesis by simp
  next
    case (Inr s1)
    from Visit_keeps_unclassified(1) [OF Inr nc "6.prems"(2,3)]
    have "Some x \<notin> visited_local_buffers s1" "Some x \<notin> visited_shared_buffers s1"
      by simp_all
    from "6.IH"(2) [OF Inr ncs this] ih1 Inr show ?thesis by simp
  qed
qed

lemma VerifyGPUCode_drop_allocations:
  assumes "never_classified x t"
  shows "VerifyGPUCode (drop_allocations x t) c = VerifyGPUCode t c"
proof -
  have "Visit L (drop_allocations x t) (Reset fresh_verifier) = Visit L t (Reset fresh_verifier)" for L
    by (rule Visit_drop_allocations(1) [OF assms]) (simp_all add: Reset_def)
  then show ?thesis
    by (simp add: VerifyGPUCode_def Verify_def split: sum.splits)
qed


text \<open>
  Claim C4. An allocation node is accounted after its subtree has been visited: the size,
  constant element count times element byte width, is added to the local-memory
  counter if the allocated variable is then in the local set, else to the shared-memory
  counter if it is in the shared set, and else to neither, in which case the node is
  traversed like its subtree alone. The allocations of a variable that no annotation of
  the tree classifies as local or shared can be removed without changing the outcome of
  the verifier. A buffer of 1024 elements of 4 bytes classified shared is rejected under
  the shared limit 4095 and accepted under 4096.
\<close>

theorem allocation_accounting:
  assumes "Visit L body s = Inr s1"
    and "never_classified x t"
  shows "Visit L (Allocate v bytes count body) s =
      Inr (if Some v \<in> visited_local_buffers s1 then
             s1\<lparr>local_memory_per_block := local_memory_per_block s1 + scast count * scast bytes\<rparr>
           else if Some v \<in> visited_shared_buffers s1 then
             s1\<lparr>shared_memory_per_block := shared_memory_per_block s1 + scast count * scast bytes\<rparr>
           else s1)
    \<and> (Some v \<notin> visited_local_buffers s1 \<and> Some v \<notin> visited_shared_buffers s1 \<longrightarrow>
         Visit L (Allocate v bytes count body) s = Visit L body s)
    \<and> VerifyGPUCode (drop_allocations x t) c = VerifyGPUCode t c
    \<and> VerifyGPUCode
        (ProducerConsumer True
          (AttrStmt (VariableNode (Variable ''A'' 7)) storage_scope (StringImm ''shared'')
            (Allocate (Variable ''A'' 7) 4 1024 (Other []))))
        [''max_shared_memory_per_block'' \<mapsto> IntImm 4095] = Inr False
    \<and> VerifyGPUCode
        (ProducerConsumer True
          (AttrStmt (VariableNode (Variable ''A'' 7)) storage_scope (StringImm ''shared'')
            (Allocate (Variable ''A'' 7) 4 1024 (Other []))))
        [''max_shared_memory_per_block'' \<mapsto> IntImm 4096] = Inr True"
proof -
  have one: "Visit L (Allocate v bytes count body) s =
      Inr (if Some v \<in> visited_local_buffers s1 then
             s1\<lparr>local_memory_per_block := local_memory_per_block s1 + scast count * scast bytes\<rparr>
           else if Some v \<in> visited_shared_buffers s1 then
             s1\<lparr>shared_memory_per_block := shared_memory_per_block s1 + scast count * scast bytes\<rparr>
           else s1)"
    using assms(1) by (simp add: account_allocation_def)
  have two: "Some v \<notin> visited_local_buffers s1 \<and> Some v \<notin> visited_shared_buffers s1 \<longrightarrow>
         Visit L (Allocate v bytes count body) s = Visit L body s"
    using assms(1) by (simp add: account_allocation_def)
  have three: "VerifyGPUCode (drop_allocations x t) c = VerifyGPUCode t c"
    by (rule VerifyGPUCode_drop_allocations [OF assms(2)])
  have four: "VerifyGPUCode
        (ProducerConsumer True
          (AttrStmt (VariableNode (Variable ''A'' 7)) storage_scope (StringImm ''shared'')
            (Allocate (Variable ''A'' 7) 4 1024 (Other []))))
        [''max_shared_memory_per_block'' \<mapsto> IntImm 4095] = Inr False"
    by (simp add: eval_defs)
  have five: "VerifyGPUCode
        (ProducerConsumer True
          (AttrStmt (VariableNode (Variable ''A'' 7)) storage_scope (StringImm ''shared'')
            (Allocate (Variable ''A'' 7) 4 1024 (Other []))))
        [''max_shared_memory_per_block'' \<mapsto> IntImm 4096] = Inr True"
    by (simp add: eval_defs)
  from one two three four five show ?thesis by (simp only: simp_thms)
qed

theorem allocation_accounting_witness:
  "Visit limits_512 (Other []) fresh_verifier = Inr fresh_verifier
   \<and> never_classified (Variable ''A'' 7)
       (ProducerConsumer True (Allocate (Variable ''A'' 7) 4 1024 (Other [])))
   \<and> Some (Variable ''A'' 7) \<notin> visited_local_buffers fresh_verifier
   \<and> Some (Variable ''A'' 7) \<notin> visited_shared_buffers fresh_verifier
   \<and> Visit limits_512 (Allocate (Variable ''A'' 7) 4 1024 (Other [])) fresh_verifier
       = Inr fresh_verifier
   \<and> VerifyGPUCode (ProducerConsumer True (Allocate (Variable ''A'' 7) 4 1024 (Other [])))
       [''max_local_memory_per_block'' \<mapsto> IntImm 1, ''max_shared_memory_per_block'' \<mapsto> IntImm 1]
       = Inr True"
proof -
  let ?A = "Variable ''A'' 7"
  let ?t = "ProducerConsumer True (Allocate ?A 4 1024 (Other []))"
  let ?c = "[''max_local_memory_per_block'' \<mapsto> IntImm 1, ''max_shared_memory_per_block'' \<mapsto> IntImm 1]"
  have h1: "Visit limits_512 (Other []) fresh_verifier = Inr fresh_verifier" by simp
  have h2: "never_classified ?A ?t" by simp
  have u1: "Some ?A \<notin> visited_local_buffers fresh_verifier"
    and u2: "Some ?A \<notin> visited_shared_buffers fresh_verifier"
    by (simp_all add: fresh_verifier_def)
  note inst = allocation_accounting [OF h1 h2, of ?A 4 1024 ?c]
  from inst have "Some ?A \<notin> visited_local_buffers fresh_verifier
      \<and> Some ?A \<notin> visited_shared_buffers fresh_verifier \<longrightarrow>
      Visit limits_512 (Allocate ?A 4 1024 (Other [])) fresh_verifier
        = Visit limits_512 (Other []) fresh_verifier"
    by (elim conjE)
  with u1 u2 h1 have a: "Visit limits_512 (Allocate ?A 4 1024 (Other [])) fresh_verifier
       = Inr fresh_verifier"
    by (simp only: simp_thms)
  from inst have e1: "VerifyGPUCode (drop_allocations ?A ?t) ?c = VerifyGPUCode ?t ?c"
    by (elim conjE)
  have e2: "VerifyGPUCode (drop_allocations ?A ?t) ?c = Inr True"
    by (simp add: eval_defs)
  from e1 [symmetric] e2 have b: "VerifyGPUCode ?t ?c = Inr True" by (rule trans)
  from h1 h2 u1 u2 a b show ?thesis by (simp only: simp_thms)
qed

section \<open>Faults and well-formed trees\<close>

lemma classify_scope_string:
  "\<exists>s1. classify_scope n (StringImm scope) s = Inr s1"
  by (simp add: classify_scope_def)

lemma classify_scope_not_string:
  "(\<forall>scope. v \<noteq> StringImm scope) \<Longrightarrow> classify_scope n v s = Inl (NullDeref as_StringImm)"
  by (cases v) (simp_all add: classify_scope_def)

lemma classify_scope_fault:
  "classify_scope n v s = Inl e \<Longrightarrow> e = NullDeref as_StringImm \<and> (\<forall>scope. v \<noteq> StringImm scope)"
  by (cases v) (auto simp: classify_scope_def split: if_splits)

lemma thread_extent_step_fault:
  "thread_extent_step L n v s = Inl e \<Longrightarrow> e \<noteq> NullDeref as_StringImm"
  by (auto simp: thread_extent_step_def split: NodeRef.splits Expr.splits)

lemma attr_step_fault_string:
  assumes "attr_step L n key v s = Inl (NullDeref as_StringImm)"
  shows "key = storage_scope \<and> (\<forall>scope. v \<noteq> StringImm scope)"
proof (cases "key = storage_scope")
  case True
  with assms have "classify_scope n v s = Inl (NullDeref as_StringImm)"
    by (simp add: attr_step_def)
  with True classify_scope_fault show ?thesis by blast
next
  case False
  with assms have "thread_extent_step L n v s = Inl (NullDeref as_StringImm)"
    by (simp add: attr_step_def split: if_splits)
  with thread_extent_step_fault show ?thesis by blast
qed

lemma Visit_no_string_fault:
  "scope_strings t \<Longrightarrow> Visit L t s \<noteq> Inl (NullDeref as_StringImm)"
  "list_all scope_strings ts \<Longrightarrow> Visit_children L ts s \<noteq> Inl (NullDeref as_StringImm)"
proof (induction L t s and L ts s rule: Visit_Visit_children.induct)
  case (1 L producer body s)
  then show ?case by (cases producer) (auto split: sum.splits)
next
  case (2 L v bytes count body s)
  then show ?case by (auto split: sum.splits)
next
  case (3 L n key v body s)
  show ?case
  proof (cases "attr_step L n key v s")
    case (Inl e)
    have "e \<noteq> NullDeref as_StringImm"
    proof
      assume "e = NullDeref as_StringImm"
      with Inl attr_step_fault_string have "key = storage_scope \<and> (\<forall>scope. v \<noteq> StringImm scope)"
        by blast
      with "3.prems" show False by (cases v) simp_all
    qed
    with Inl show ?thesis by simp
  next
    case (Inr s1)
    from "3.prems" have "scope_strings body" by simp
    from "3.IH" [OF Inr this] Inr show ?thesis by simp
  qed
next
  case (4 L children s)
  then show ?case by simp
next
  case (5 L s)
  then show ?case by simp
next
  case (6 L c cs s)
  from "6.prems" have c: "scope_strings c" and cs: "list_all scope_strings cs" by simp_all
  show ?case
  proof (cases "Visit L c s")
    case (Inl e)
    with "6.IH"(1) [OF c] show ?thesis by simp
  next
    case (Inr s1)
    from "6.IH"(2) [OF Inr cs] Inr show ?thesis by simp
  qed
qed

lemma attr_step_returns:
  assumes "key = storage_scope \<longrightarrow> (\<exists>scope. v = StringImm scope)"
    and "key = thread_extent \<longrightarrow> (\<exists>iv e. n = IterVarNode iv \<and> v = IntImm e)"
  shows "\<exists>s1. attr_step L n key v s = Inr s1"
proof (cases "key = storage_scope")
  case True
  with assms(1) obtain scope where "v = StringImm scope" by blast
  with True show ?thesis by (simp add: attr_step_def classify_scope_def)
next
  case False
  show ?thesis
  proof (cases "key = thread_extent")
    case True
    with assms(2) obtain iv e where "n = IterVarNode iv" "v = IntImm e" by blast
    with False True show ?thesis by (simp add: attr_step_def thread_extent_step_def)
  next
    case nt: False
    with False show ?thesis by (simp add: attr_step_def)
  qed
qed

lemma attr_step_returns_conv:
  assumes "attr_step L n key v s = Inr s1"
  shows "(key = storage_scope \<longrightarrow> (\<exists>scope. v = StringImm scope))
       \<and> (key = thread_extent \<longrightarrow> (\<exists>iv e. n = IterVarNode iv \<and> v = IntImm e))"
  using assms storage_scope_neq_thread_extent
  by (auto simp: attr_step_def classify_scope_def thread_extent_step_def
      split: if_splits Expr.splits NodeRef.splits)

lemma well_formed_attr:
  "(scope_strings (AttrStmt n key v body) \<and> extent_typed (AttrStmt n key v body)) =
   ((key = storage_scope \<longrightarrow> (\<exists>scope. v = StringImm scope))
    \<and> (key = thread_extent \<longrightarrow> (\<exists>iv e. n = IterVarNode iv \<and> v = IntImm e))
    \<and> scope_strings body \<and> extent_typed body)"
  by (cases n; cases v) auto

lemma Visit_returns_well_formed:
  "scope_strings t \<Longrightarrow> extent_typed t \<Longrightarrow> \<exists>s'. Visit L t s = Inr s'"
  "list_all scope_strings ts \<Longrightarrow> list_all extent_typed ts \<Longrightarrow> \<exists>s'. Visit_children L ts s = Inr s'"
proof (induction L t s and L ts s rule: Visit_Visit_children.induct)
  case (1 L producer body s)
  from "1.prems" have b: "scope_strings body" "extent_typed body" by simp_all
  show ?case
  proof (cases producer)
    case True
    from "1.IH"(1) [OF True b] True show ?thesis by auto
  next
    case False
    from "1.IH"(2) [OF False b] False show ?thesis by auto
  qed
next
  case (2 L v bytes count body s)
  from "2.prems" have b: "scope_strings body" "extent_typed body" by simp_all
  from "2.IH" [OF b] show ?case by auto
next
  case (3 L n key v body s)
  from "3.prems" well_formed_attr [of n key v body]
  have a: "key = storage_scope \<longrightarrow> (\<exists>scope. v = StringImm scope)"
    "key = thread_extent \<longrightarrow> (\<exists>iv e. n = IterVarNode iv \<and> v = IntImm e)"
    and b: "scope_strings body" "extent_typed body"
    by blast+
  from attr_step_returns [OF a] obtain s1 where s1: "attr_step L n key v s = Inr s1" by blast
  from "3.IH" [OF s1 b] s1 show ?case by simp
next
  case (4 L children s)
  then show ?case by simp
next
  case (5 L s)
  then show ?case by simp
next
  case (6 L c cs s)
  from "6.prems" have c: "scope_strings c" "extent_typed c"
    and cs: "list_all scope_strings cs" "list_all extent_typed cs" by simp_all
  from "6.IH"(1) [OF c] obtain s1 where s1: "Visit L c s = Inr s1" by blast
  from "6.IH"(2) [OF s1 cs] s1 show ?case by simp
qed

lemma Visit_returns_only_well_formed:
  "Visit L t s = Inr s' \<Longrightarrow> scope_strings t \<and> extent_typed t"
  "Visit_children L ts s = Inr s' \<Longrightarrow> list_all scope_strings ts \<and> list_all extent_typed ts"
proof (induction L t s and L ts s arbitrary: s' and s' rule: Visit_Visit_children.induct)
  case (1 L producer body s)
  then show ?case by (cases producer) (auto split: sum.splits)
next
  case (2 L v bytes count body s)
  then show ?case by (auto split: sum.splits)
next
  case (3 L n key v body s)
  from "3.prems" obtain s1 where
    a: "attr_step L n key v s = Inr s1" and v: "Visit L body s1 = Inr s'"
    by (auto split: sum.splits)
  from "3.IH" [OF a v] attr_step_returns_conv [OF a] well_formed_attr [of n key v body]
  show ?case by blast
next
  case (4 L children s)
  then show ?case by simp
next
  case (5 L s)
  then show ?case by simp
next
  case (6 L c cs s)
  from "6.prems" obtain s1 where
    c: "Visit L c s = Inr s1" and cs: "Visit_children L cs s1 = Inr s'"
    by (auto split: sum.splits)
  from "6.IH"(1) [OF c] "6.IH"(2) [OF c cs] show ?case by simp
qed

text \<open>
  Claim C10. The classification of a storage-scope annotation reads the value as a string
  constant with no guard. On a string constant the classification step returns a state,
  and a tree in which every storage-scope annotation carries a string constant never
  ends in the fault of that read. On any other value the step is the dereference of a
  null pointer: the annotation ends the traversal, and \<open>Verify\<close>, with that fault, which
  is neither the failed \<open>CHECK\<close> nor a verdict.
\<close>

theorem storage_scope_value_unchecked:
  assumes "scope_strings t"
    and "\<forall>scope. v \<noteq> StringImm scope"
  shows "(\<exists>s1. classify_scope n (StringImm scope) s = Inr s1)
    \<and> Visit L t s \<noteq> Inl (NullDeref as_StringImm)
    \<and> Verify this t L \<noteq> Inl (NullDeref as_StringImm)
    \<and> classify_scope n v s = Inl (NullDeref as_StringImm)
    \<and> Visit L (AttrStmt n storage_scope v body) s = Inl (NullDeref as_StringImm)
    \<and> Verify this (AttrStmt n storage_scope v body) L = Inl (NullDeref as_StringImm)
    \<and> NullDeref as_StringImm \<noteq> CheckFailed"
proof -
  have one: "\<exists>s1. classify_scope n (StringImm scope) s = Inr s1"
    by (rule classify_scope_string)
  have two: "Visit L t s \<noteq> Inl (NullDeref as_StringImm)" for s
    by (rule Visit_no_string_fault(1) [OF assms(1)])
  have three: "Verify this t L \<noteq> Inl (NullDeref as_StringImm)"
    using two [of "Reset this"] by (auto simp: Verify_def split: sum.splits)
  have four: "classify_scope n v s = Inl (NullDeref as_StringImm)" for s
    by (rule classify_scope_not_string [OF assms(2)])
  have five: "Visit L (AttrStmt n storage_scope v body) s = Inl (NullDeref as_StringImm)" for s
    by (simp add: attr_step_def four)
  have six: "Verify this (AttrStmt n storage_scope v body) L = Inl (NullDeref as_StringImm)"
    by (simp only: Verify_def five sum.case)
  from one two three four five six show ?thesis by simp
qed

theorem storage_scope_value_unchecked_witness:
  "scope_strings (ProducerConsumer True
      (AttrStmt (VariableNode (Variable ''A'' 7)) storage_scope (StringImm ''global'') (Other [])))
   \<and> (\<forall>scope. IntImm 0 \<noteq> StringImm scope)
   \<and> Verify fresh_verifier (ProducerConsumer True
      (AttrStmt (VariableNode (Variable ''A'' 7)) storage_scope (StringImm ''global'') (Other [])))
      limits_512 \<noteq> Inl (NullDeref as_StringImm)
   \<and> Verify fresh_verifier
      (AttrStmt (VariableNode (Variable ''A'' 7)) storage_scope (IntImm 0) (Other []))
      limits_512 = Inl (NullDeref as_StringImm)"
proof -
  let ?t = "ProducerConsumer True
      (AttrStmt (VariableNode (Variable ''A'' 7)) storage_scope (StringImm ''global'') (Other []))"
  have h1: "scope_strings ?t" by simp
  have h2: "\<forall>scope. IntImm 0 \<noteq> StringImm scope" by simp
  note inst = storage_scope_value_unchecked
    [where n = "VariableNode (Variable ''A'' 7)" and L = limits_512 and this = fresh_verifier
      and body = "Other []" and s = fresh_verifier and scope = "''global''", OF h1 h2]
  from inst have a: "Verify fresh_verifier ?t limits_512 \<noteq> Inl (NullDeref as_StringImm)"
    by (elim conjE)
  from inst have b: "Verify fresh_verifier
      (AttrStmt (VariableNode (Variable ''A'' 7)) storage_scope (IntImm 0) (Other []))
      limits_512 = Inl (NullDeref as_StringImm)"
    by (elim conjE)
  from h1 h2 a b show ?thesis by (simp only: simp_thms)
qed

section \<open>Malformed input\<close>

lemma get_int_not_int:
  "constraints k = Some v \<Longrightarrow> \<forall>e. v \<noteq> IntImm e \<Longrightarrow>
   get_int constraints k d = Inl (NullDeref as_IntImm)"
  by (cases v) (simp_all add: get_int_def)

lemma get_int_fault:
  "get_int constraints k d = Inl e \<Longrightarrow> e = NullDeref as_IntImm"
  by (auto simp: get_int_def split: option.splits Expr.splits)

lemma resolve_limits_fault:
  "resolve_limits constraints = Inl e \<Longrightarrow> e = NullDeref as_IntImm"
  by (auto simp: resolve_limits_def split: sum.splits dest: get_int_fault)

lemma resolve_limits_returns:
  assumes "resolve_limits constraints = Inr L" and "k \<in> set limit_names"
  shows "\<exists>i. get_int constraints k INT64_MAX = Inr i"
  using assms
  by (auto simp: resolve_limits_def limit_names_def split: sum.splits)

lemma resolve_limits_not_int:
  assumes "k \<in> set limit_names" and "constraints k = Some v" and "\<forall>e. v \<noteq> IntImm e"
  shows "resolve_limits constraints = Inl (NullDeref as_IntImm)"
proof (cases "resolve_limits constraints")
  case (Inl e)
  with resolve_limits_fault show ?thesis by blast
next
  case (Inr L)
  from resolve_limits_returns [OF Inr assms(1)] get_int_not_int [of constraints k v INT64_MAX, OF assms(2,3)]
  show ?thesis by simp
qed


text \<open>
  Claim C6 (as amended). Malformed input never yields a verdict, but only one of the three
  cases is a checked internal error. A thread-extent annotation whose target is an
  iteration variable and whose value is not a constant integer fails the \<open>CHECK\<close> of
  line 84. A thread-extent annotation whose target is not an iteration variable
  dereferences a null pointer at line 82, before the value is looked at, and a present
  limit entry (under one of the six names) whose value is not a constant integer
  dereferences a null pointer at line 143; neither is guarded. A tree containing a
  thread-extent annotation that is malformed in either way makes \<open>Verify\<close> end in a fault.
\<close>

theorem malformed_input_faults:
  assumes "\<forall>e. v \<noteq> IntImm e"
    and "\<forall>iv. n \<noteq> IterVarNode iv"
    and "k \<in> set limit_names" and "constraints k = Some v"
    and "\<not> extent_typed t"
  shows "Visit L (AttrStmt (IterVarNode iv) thread_extent v body) s = Inl CheckFailed
    \<and> Verify this (AttrStmt (IterVarNode iv) thread_extent v body) L = Inl CheckFailed
    \<and> Visit L (AttrStmt n thread_extent v' body) s = Inl (NullDeref as_IterVarNode)
    \<and> Verify this (AttrStmt n thread_extent v' body) L = Inl (NullDeref as_IterVarNode)
    \<and> VerifyGPUCode stmt constraints = Inl (NullDeref as_IntImm)
    \<and> (\<exists>e. Verify this t L = Inl e)"
proof -
  have a: "attr_step L (IterVarNode iv) thread_extent v s = Inl CheckFailed" for s
    using assms(1) storage_scope_neq_thread_extent
    by (cases v) (auto simp: attr_step_def thread_extent_step_def)
  have one: "Visit L (AttrStmt (IterVarNode iv) thread_extent v body) s = Inl CheckFailed" for s
    by (simp only: Visit.simps a sum.case)
  have two: "Verify this (AttrStmt (IterVarNode iv) thread_extent v body) L = Inl CheckFailed"
    by (simp only: Verify_def one sum.case)
  have b: "attr_step L n thread_extent v' s = Inl (NullDeref as_IterVarNode)" for s
    using assms(2) storage_scope_neq_thread_extent
    by (cases n) (auto simp: attr_step_def thread_extent_step_def)
  have three: "Visit L (AttrStmt n thread_extent v' body) s = Inl (NullDeref as_IterVarNode)" for s
    by (simp only: Visit.simps b sum.case)
  have four: "Verify this (AttrStmt n thread_extent v' body) L = Inl (NullDeref as_IterVarNode)"
    by (simp only: Verify_def three sum.case)
  have five: "VerifyGPUCode stmt constraints = Inl (NullDeref as_IntImm)"
    by (simp only: VerifyGPUCode_def resolve_limits_not_int [of k constraints v, OF assms(3,4,1)] sum.case)
  have six: "\<exists>e. Verify this t L = Inl e"
  proof (cases "Visit L t (Reset this)")
    case (Inl e)
    then show ?thesis by (simp add: Verify_def)
  next
    case (Inr s')
    from Visit_returns_only_well_formed(1) [OF Inr] assms(5) show ?thesis by simp
  qed
  from one two three four five six show ?thesis by (simp only: simp_thms)
qed

theorem malformed_input_faults_witness:
  "(\<forall>e. StringImm ''32'' \<noteq> IntImm e)
   \<and> (\<forall>iv. VariableNode (Variable ''threadIdx.x'' 1) \<noteq> IterVarNode iv)
   \<and> ''max_thread_x'' \<in> set limit_names
   \<and> [''max_thread_x'' \<mapsto> StringImm ''32''] ''max_thread_x'' = Some (StringImm ''32'')
   \<and> \<not> extent_typed (ProducerConsumer True
          (AttrStmt (IterVarNode (Variable ''blockIdx.x'' 4)) thread_extent OtherExpr (Other [])))
   \<and> Verify fresh_verifier
        (AttrStmt (IterVarNode (Variable ''threadIdx.x'' 1)) thread_extent (StringImm ''32'') (Other []))
        limits_512 = Inl CheckFailed
   \<and> Verify fresh_verifier
        (AttrStmt (VariableNode (Variable ''threadIdx.x'' 1)) thread_extent (IntImm 32) (Other []))
        limits_512 = Inl (NullDeref as_IterVarNode)
   \<and> VerifyGPUCode (Other []) [''max_thread_x'' \<mapsto> StringImm ''32''] = Inl (NullDeref as_IntImm)
   \<and> (\<exists>e. Verify fresh_verifier (ProducerConsumer True
          (AttrStmt (IterVarNode (Variable ''blockIdx.x'' 4)) thread_extent OtherExpr (Other [])))
        limits_512 = Inl e)"
proof -
  let ?t = "ProducerConsumer True
          (AttrStmt (IterVarNode (Variable ''blockIdx.x'' 4)) thread_extent OtherExpr (Other []))"
  let ?c = "[''max_thread_x'' \<mapsto> StringImm ''32'']"
  have h1: "\<forall>e. StringImm ''32'' \<noteq> IntImm e" by simp
  have h2: "\<forall>iv. VariableNode (Variable ''threadIdx.x'' 1) \<noteq> IterVarNode iv" by simp
  have h3: "''max_thread_x'' \<in> set limit_names" by (simp add: limit_names_def)
  have h4: "?c ''max_thread_x'' = Some (StringImm ''32'')" by simp
  have h5: "\<not> extent_typed ?t" by simp
  note inst = malformed_input_faults
    [where v = "StringImm ''32''" and n = "VariableNode (Variable ''threadIdx.x'' 1)"
      and k = "''max_thread_x''" and constraints = ?c and t = ?t and L = limits_512
      and iv = "Variable ''threadIdx.x'' 1" and body = "Other []" and s = fresh_verifier
      and this = fresh_verifier and v' = "IntImm 32" and stmt = "Other []",
      OF h1 h2 h3 h4 h5]
  from inst have a: "Verify fresh_verifier
        (AttrStmt (IterVarNode (Variable ''threadIdx.x'' 1)) thread_extent (StringImm ''32'') (Other []))
        limits_512 = Inl CheckFailed"
    by (elim conjE)
  from inst have b: "Verify fresh_verifier
        (AttrStmt (VariableNode (Variable ''threadIdx.x'' 1)) thread_extent (IntImm 32) (Other []))
        limits_512 = Inl (NullDeref as_IterVarNode)"
    by (elim conjE)
  from inst have c: "VerifyGPUCode (Other []) ?c = Inl (NullDeref as_IntImm)"
    by (elim conjE)
  from inst have d: "\<exists>e. Verify fresh_verifier ?t limits_512 = Inl e"
    by (elim conjE)
  from h1 h2 h3 h4 h5 a b c d show ?thesis by (simp only: simp_thms)
qed

text \<open>
  A thread-extent annotation whose target is a plain variable, and a limit entry that is
  a string: the verifier ends in a null dereference, not in the internal error of a
  failed \<open>CHECK\<close>.
\<close>

theorem malformed_input_not_checked:
  "VerifyGPUCode
     (AttrStmt (VariableNode (Variable ''threadIdx.x'' 1)) thread_extent (IntImm 32) (Other []))
     Map.empty = Inl (NullDeref as_IterVarNode)
   \<and> VerifyGPUCode
     (AttrStmt (VariableNode (Variable ''threadIdx.x'' 1)) thread_extent (IntImm 32) (Other []))
     Map.empty \<noteq> Inl CheckFailed
   \<and> VerifyGPUCode (Other []) [''max_thread_x'' \<mapsto> StringImm ''32''] = Inl (NullDeref as_IntImm)
   \<and> VerifyGPUCode (Other []) [''max_thread_x'' \<mapsto> StringImm ''32''] \<noteq> Inl CheckFailed"
  by (simp add: eval_defs)

section \<open>Trees without a kernel region marker\<close>

lemma attr_checks_within:
  assumes "extents_within L (AttrStmt n key v body)"
  shows "list_all (\<lambda>b. b) (attr_checks L n key v s)"
  using assms by (cases n; cases v) (auto simp: attr_checks_def)

lemma Visit_no_marker_valid:
  "Visit L t s = Inr s' \<Longrightarrow> no_marker t \<Longrightarrow> extents_within L t \<Longrightarrow> valid s' = valid s"
  "Visit_children L ts s = Inr s' \<Longrightarrow> list_all no_marker ts \<Longrightarrow>
     list_all (extents_within L) ts \<Longrightarrow> valid s' = valid s"
proof (induction L t s and L ts s arbitrary: s' and s' rule: Visit_Visit_children.induct)
  case (1 L producer body s)
  then show ?case by simp
next
  case (2 L v bytes count body s)
  from "2.prems"(1) obtain s1 where
    v: "Visit L body s = Inr s1" and s': "s' = account_allocation v bytes count s1"
    by (auto split: sum.splits)
  from "2.prems"(2,3) have b: "no_marker body" "extents_within L body" by simp_all
  from "2.IH" [OF v b] s' show ?case by (simp add: valid_account_allocation)
next
  case (3 L n key v body s)
  from "3.prems"(1) obtain s1 where
    a: "attr_step L n key v s = Inr s1" and v: "Visit L body s1 = Inr s'"
    by (auto split: sum.splits)
  from "3.prems"(2,3) have b: "no_marker body" "extents_within L body"
    by (simp_all split: NodeRef.splits Expr.splits)
  from valid_attr_step [OF a] attr_checks_within [OF "3.prems"(3)] have "valid s1 = valid s"
    by simp
  with "3.IH" [OF a v b] show ?case by simp
next
  case (4 L children s)
  then show ?case by simp
next
  case (5 L s)
  then show ?case by simp
next
  case (6 L c cs s)
  from "6.prems"(1) obtain s1 where
    c: "Visit L c s = Inr s1" and cs: "Visit_children L cs s1 = Inr s'"
    by (auto split: sum.splits)
  from "6.prems"(2,3) have hc: "no_marker c" "extents_within L c"
    and hcs: "list_all no_marker cs" "list_all (extents_within L) cs" by simp_all
  from "6.IH"(1) [OF c hc] "6.IH"(2) [OF c cs hcs] show ?case by simp
qed

text \<open>
  Claim C2 (as amended). For a well-formed statement tree with no kernel region marker in
  which every thread-extent annotation for \<open>threadIdx.x\<close>, \<open>threadIdx.y\<close> or \<open>threadIdx.z\<close>
  has an extent within the bound of its dimension, the verifier returns true, whatever
  storage-scope annotations and allocation nodes the tree contains and whatever the
  bounds on local memory, shared memory and threads per block are.
\<close>

theorem no_marker_verdict:
  assumes "no_marker t"
    and "scope_strings t" and "extent_typed t"
    and "resolve_limits constraints = Inr L"
    and "extents_within L t"
  shows "VerifyGPUCode t constraints = Inr True"
proof -
  from Visit_returns_well_formed(1) [OF assms(2,3)]
  obtain s' where v: "Visit L t (Reset fresh_verifier) = Inr s'" by blast
  from Visit_no_marker_valid(1) [OF v assms(1,5)] have "valid s'"
    by (simp add: Reset_def fresh_verifier_def)
  with v assms(4) show ?thesis by (simp add: VerifyGPUCode_def Verify_def)
qed

theorem no_marker_verdict_witness:
  "no_marker (AttrStmt (VariableNode (Variable ''A'' 7)) storage_scope (StringImm ''shared'')
      (Allocate (Variable ''A'' 7) 4 1024
        (AttrStmt (IterVarNode (Variable ''threadIdx.x'' 1)) thread_extent (IntImm 32) (Other []))))
   \<and> scope_strings (AttrStmt (VariableNode (Variable ''A'' 7)) storage_scope (StringImm ''shared'')
      (Allocate (Variable ''A'' 7) 4 1024
        (AttrStmt (IterVarNode (Variable ''threadIdx.x'' 1)) thread_extent (IntImm 32) (Other []))))
   \<and> extent_typed (AttrStmt (VariableNode (Variable ''A'' 7)) storage_scope (StringImm ''shared'')
      (Allocate (Variable ''A'' 7) 4 1024
        (AttrStmt (IterVarNode (Variable ''threadIdx.x'' 1)) thread_extent (IntImm 32) (Other []))))
   \<and> resolve_limits [''max_shared_memory_per_block'' \<mapsto> IntImm 1, ''max_thread_per_block'' \<mapsto> IntImm 1,
        ''max_thread_x'' \<mapsto> IntImm 32]
      = Inr \<lparr>max_local_memory_per_block = INT64_MAX, max_shared_memory_per_block = 1,
             max_thread_per_block = 1, max_thread_x = 32, max_thread_y = INT64_MAX,
             max_thread_z = INT64_MAX\<rparr>
   \<and> extents_within \<lparr>max_local_memory_per_block = INT64_MAX, max_shared_memory_per_block = 1,
             max_thread_per_block = 1, max_thread_x = 32, max_thread_y = INT64_MAX,
             max_thread_z = INT64_MAX\<rparr>
       (AttrStmt (VariableNode (Variable ''A'' 7)) storage_scope (StringImm ''shared'')
        (Allocate (Variable ''A'' 7) 4 1024
          (AttrStmt (IterVarNode (Variable ''threadIdx.x'' 1)) thread_extent (IntImm 32) (Other []))))
   \<and> VerifyGPUCode (AttrStmt (VariableNode (Variable ''A'' 7)) storage_scope (StringImm ''shared'')
      (Allocate (Variable ''A'' 7) 4 1024
        (AttrStmt (IterVarNode (Variable ''threadIdx.x'' 1)) thread_extent (IntImm 32) (Other []))))
      [''max_shared_memory_per_block'' \<mapsto> IntImm 1, ''max_thread_per_block'' \<mapsto> IntImm 1,
        ''max_thread_x'' \<mapsto> IntImm 32] = Inr True"
proof -
  let ?t = "AttrStmt (VariableNode (Variable ''A'' 7)) storage_scope (StringImm ''shared'')
      (Allocate (Variable ''A'' 7) 4 1024
        (AttrStmt (IterVarNode (Variable ''threadIdx.x'' 1)) thread_extent (IntImm 32) (Other [])))"
  let ?c = "[''max_shared_memory_per_block'' \<mapsto> IntImm 1, ''max_thread_per_block'' \<mapsto> IntImm 1,
        ''max_thread_x'' \<mapsto> IntImm 32]"
  let ?L = "\<lparr>max_local_memory_per_block = INT64_MAX, max_shared_memory_per_block = 1,
             max_thread_per_block = 1, max_thread_x = 32, max_thread_y = INT64_MAX,
             max_thread_z = INT64_MAX\<rparr>"
  have h1: "no_marker ?t" by simp
  have h2: "scope_strings ?t" by (simp add: storage_scope_def thread_extent_def)
  have h3: "extent_typed ?t" by (simp add: storage_scope_def thread_extent_def)
  have h4: "resolve_limits ?c = Inr ?L" by (simp add: resolve_limits_def get_int_def)
  have h5: "extents_within ?L ?t" by (simp add: max_thread_dim_def is_thread_name_def storage_scope_def thread_extent_def)
  from no_marker_verdict [OF h1 h2 h3 h4 h5] h1 h2 h3 h4 h5 show ?thesis
    by (simp only: simp_thms)
qed

text \<open>
  A tree with no kernel region marker that is rejected: a thread-extent annotation of 64
  for \<open>threadIdx.x\<close> under \<open>max_thread_x = 32\<close>.
\<close>

theorem no_marker_rejected:
  "no_marker (AttrStmt (IterVarNode (Variable ''threadIdx.x'' 1)) thread_extent (IntImm 64) (Other []))
   \<and> VerifyGPUCode
       (AttrStmt (IterVarNode (Variable ''threadIdx.x'' 1)) thread_extent (IntImm 64) (Other []))
       [''max_thread_x'' \<mapsto> IntImm 32] = Inr False"
  by (simp add: eval_defs)

section \<open>Allocations and classifications outside every region\<close>

lemma forget_result_simps [simp]:
  "forget_result (Inl e) = Inl e"
  "forget_result (Inr s) = Inr (forget_memory s)"
  by (simp_all add: forget_result_def)

lemma forget_memory_fields:
  assumes "forget_memory s = forget_memory s'"
  shows "nest_level s = nest_level s'" "valid s = valid s'"
    "visited_threads s = visited_threads s'" "thread_per_block s = thread_per_block s'"
proof -
  have "nest_level (forget_memory s) = nest_level (forget_memory s')"
    "valid (forget_memory s) = valid (forget_memory s')"
    "visited_threads (forget_memory s) = visited_threads (forget_memory s')"
    "thread_per_block (forget_memory s) = thread_per_block (forget_memory s')"
    by (simp_all only: assms)
  then show "nest_level s = nest_level s'" "valid s = valid s'"
    "visited_threads s = visited_threads s'" "thread_per_block s = thread_per_block s'"
    by (simp_all add: forget_memory_def)
qed

lemma Reset_forget_memory: "Reset (forget_memory s) = Reset s"
  by (simp add: Reset_def forget_memory_def)

lemma Reset_cong_forget:
  assumes "forget_memory s = forget_memory s'"
  shows "Reset s = Reset s'"
proof -
  have "Reset s = Reset (forget_memory s)" by (simp only: Reset_forget_memory)
  also have "\<dots> = Reset (forget_memory s')" by (simp only: assms)
  also have "\<dots> = Reset s'" by (simp only: Reset_forget_memory)
  finally show ?thesis .
qed

lemma forget_account_allocation:
  "forget_memory (account_allocation v b c s) = forget_memory s"
  by (simp add: account_allocation_def forget_memory_def)

lemma forget_count_thread:
  "forget_memory (count_thread L name e s) = count_thread L name e (forget_memory s)"
  by (simp add: count_thread_def forget_memory_def Let_def)

lemma forget_classify_scope:
  "classify_scope n v s = Inr s1 \<Longrightarrow> forget_memory s1 = forget_memory s"
  by (auto simp: classify_scope_def forget_memory_def split: Expr.splits if_splits)

lemma classify_scope_state_free:
  "classify_scope n v s = Inl e \<Longrightarrow> classify_scope n v s' = Inl e"
  by (auto simp: classify_scope_def split: Expr.splits if_splits)

lemma forget_thread_extent_step:
  "forget_result (thread_extent_step L n v s) =
   thread_extent_step L n v (forget_memory s)"
  by (simp add: thread_extent_step_def forget_count_thread split: NodeRef.splits Expr.splits)

lemma forget_attr_step:
  assumes "forget_memory s = forget_memory s'"
  shows "forget_result (attr_step L n key v s) =
         forget_result (attr_step L n key v s')"
proof (cases "key = storage_scope")
  case True
  show ?thesis
  proof (cases "classify_scope n v s")
    case (Inl e)
    from classify_scope_state_free [OF Inl, of s'] Inl True show ?thesis
      by (simp add: attr_step_def)
  next
    case (Inr s1)
    have "\<exists>s1'. classify_scope n v s' = Inr s1'"
    proof (cases "classify_scope n v s'")
      case (Inl e)
      from classify_scope_state_free [OF Inl, of s] Inr show ?thesis by simp
    next
      case (Inr s1')
      then show ?thesis by simp
    qed
    then obtain s1' where s1': "classify_scope n v s' = Inr s1'" by blast
    from forget_classify_scope [OF Inr] forget_classify_scope [OF s1'] assms
    have "forget_memory s1 = forget_memory s1'" by simp
    with Inr s1' True show ?thesis by (simp add: attr_step_def)
  qed
next
  case False
  show ?thesis
  proof (cases "key = thread_extent")
    case True
    with False show ?thesis
      by (simp add: attr_step_def forget_thread_extent_step assms)
  next
    case nt: False
    with False assms show ?thesis by (simp add: attr_step_def)
  qed
qed

lemma Visit_marker_cong_forget:
  assumes "nest_level s = 0" and "forget_memory s = forget_memory s'"
  shows "Visit L (ProducerConsumer producer body) s = Visit L (ProducerConsumer producer body) s'"
proof -
  from forget_memory_fields(1) [OF assms(2)] assms(1) have "nest_level s' = 0" by simp
  with assms(1) Reset_cong_forget [OF assms(2)] have "enter_kernel s = enter_kernel s'"
    by (simp add: enter_kernel_def)
  then show ?thesis by simp
qed

lemma forget_result_eq_Inl:
  "forget_result r = forget_result r' \<Longrightarrow> r = Inl e \<Longrightarrow> r' = Inl e"
  by (cases r') auto

lemma forget_result_eq_Inr:
  "forget_result r = forget_result r' \<Longrightarrow> r = Inr a \<Longrightarrow>
   \<exists>b. r' = Inr b \<and> forget_memory a = forget_memory b"
  by (cases r') auto

lemma drop_outside_kept:
  "\<not> (key = storage_scope \<and> (\<exists>scope. v = StringImm scope)) \<Longrightarrow>
   drop_outside (AttrStmt n key v body) = AttrStmt n key v (drop_outside body)"
  by (cases v) auto

lemma Visit_children_drop_outside:
  assumes ih: "\<And>c s s'. c \<in> set cs \<Longrightarrow> nest_level s = 0 \<Longrightarrow>
      forget_memory s = forget_memory s' \<Longrightarrow>
      forget_result (Visit L (drop_outside c) s) =
      forget_result (Visit L c s')"
    and "nest_level s = 0" and "forget_memory s = forget_memory s'"
  shows "forget_result (Visit_children L (map drop_outside cs) s) =
         forget_result (Visit_children L cs s')"
  using assms
proof (induction cs arbitrary: s s')
  case Nil
  then show ?case by simp
next
  case (Cons c cs)
  have head: "forget_result (Visit L (drop_outside c) s) =
      forget_result (Visit L c s')"
    by (rule Cons.prems(1)) (simp_all add: Cons.prems(2,3))
  show ?case
  proof (cases "Visit L (drop_outside c) s")
    case (Inl e)
    from forget_result_eq_Inl [OF head Inl] Inl show ?thesis by simp
  next
    case (Inr s1)
    from forget_result_eq_Inr [OF head Inr] obtain s1' where
      v': "Visit L c s' = Inr s1'" and f: "forget_memory s1 = forget_memory s1'"
      by blast
    have n: "nest_level s1 = 0"
      using Visit_nest_level(1) [OF Inr] Cons.prems(2) by simp
    have "forget_result (Visit_children L (map drop_outside cs) s1) =
         forget_result (Visit_children L cs s1')"
      by (rule Cons.IH [OF _ n f]) (rule Cons.prems(1), simp_all)
    with Inr v' show ?thesis by simp
  qed
qed

lemma Visit_drop_outside:
  "nest_level s = 0 \<Longrightarrow> forget_memory s = forget_memory s' \<Longrightarrow>
   forget_result (Visit L (drop_outside t) s) =
   forget_result (Visit L t s')"
proof (induction t arbitrary: s s')
  case (ProducerConsumer producer body)
  from Visit_marker_cong_forget [OF ProducerConsumer.prems] show ?case by simp
next
  case (Allocate v bytes count body)
  have "forget_result (Visit L (Allocate v bytes count body) s') =
      forget_result (Visit L body s')"
    by (cases "Visit L body s'") (simp_all add: forget_account_allocation)
  with Allocate.IH [OF Allocate.prems] show ?case by simp
next
  case (AttrStmt n key v body)
  show ?case
  proof (cases "key = storage_scope \<and> (\<exists>scope. v = StringImm scope)")
    case True
    then obtain scope where k: "key = storage_scope" and v: "v = StringImm scope" by blast
    from classify_scope_string [of n scope s'] obtain s1' where
      c: "classify_scope n (StringImm scope) s' = Inr s1'" by blast
    from forget_classify_scope [OF c] AttrStmt.prems(2)
    have f: "forget_memory s = forget_memory s1'" by simp
    have "Visit L (AttrStmt n key v body) s' = Visit L body s1'"
      by (simp add: k v attr_step_def c)
    moreover have "drop_outside (AttrStmt n key v body) = drop_outside body"
      by (simp add: k v)
    ultimately show ?thesis
      using AttrStmt.IH [OF AttrStmt.prems(1) f] by simp
  next
    case False
    note kept = drop_outside_kept [OF False]
    note step = forget_attr_step [OF AttrStmt.prems(2), of L n key v]
    show ?thesis
    proof (cases "attr_step L n key v s")
      case (Inl e)
      from forget_result_eq_Inl [OF step Inl] Inl show ?thesis by (simp only: kept) simp
    next
      case (Inr s1)
      from forget_result_eq_Inr [OF step Inr] obtain s1' where
        a': "attr_step L n key v s' = Inr s1'" and f: "forget_memory s1 = forget_memory s1'"
        by blast
      have n1: "nest_level s1 = 0"
        using nest_level_attr_step [OF Inr] AttrStmt.prems(1) by simp
      from AttrStmt.IH [OF n1 f] Inr a' show ?thesis by (simp only: kept) simp
    qed
  qed
next
  case (Other children)
  have "forget_result (Visit_children L (map drop_outside children) s) =
        forget_result (Visit_children L children s')"
    by (rule Visit_children_drop_outside [OF _ Other.prems]) (rule Other.IH)
  then show ?case by simp
qed

lemma valid_forget_memory: "valid (forget_memory s) = valid s"
  by (simp add: forget_memory_def)

lemma Verify_drop_outside:
  assumes "nest_level this = 0"
  shows "Verify this (drop_outside t) L = Verify this t L"
proof -
  have n: "nest_level (Reset this) = 0" using assms by (simp add: nest_level_Reset)
  note eq = Visit_drop_outside [OF n refl, of L t]
  show ?thesis
  proof (cases "Visit L (drop_outside t) (Reset this)")
    case (Inl e)
    from forget_result_eq_Inl [OF eq Inl] Inl show ?thesis by (simp add: Verify_def)
  next
    case (Inr s1)
    from forget_result_eq_Inr [OF eq Inr] obtain s1' where
      v': "Visit L t (Reset this) = Inr s1'" and f: "forget_memory s1 = forget_memory s1'"
      by blast
    from forget_memory_fields(2) [OF f] Inr v' show ?thesis by (simp add: Verify_def)
  qed
qed

lemma VerifyGPUCode_drop_outside:
  "VerifyGPUCode (drop_outside t) c = VerifyGPUCode t c"
proof -
  have "nest_level fresh_verifier = 0" by (simp add: fresh_verifier_def)
  from Verify_drop_outside [OF this] show ?thesis
    by (simp add: VerifyGPUCode_def split: sum.splits)
qed

text \<open>
  Claim C9. Allocation nodes and storage-scope classifications that no kernel region
  marker encloses never affect the outcome: the verifier gives the same result on a tree
  and on the tree without them, so two trees that differ only by such nodes get the
  same result.
\<close>

theorem outside_allocations_ignored:
  assumes "drop_outside t = drop_outside t'"
  shows "VerifyGPUCode (drop_outside t) c = VerifyGPUCode t c
    \<and> VerifyGPUCode t c = VerifyGPUCode t' c"
proof -
  have "VerifyGPUCode t c = VerifyGPUCode (drop_outside t) c"
    by (simp only: VerifyGPUCode_drop_outside)
  also have "\<dots> = VerifyGPUCode (drop_outside t') c"
    by (simp only: assms)
  also have "\<dots> = VerifyGPUCode t' c"
    by (simp only: VerifyGPUCode_drop_outside)
  finally show ?thesis by (simp only: VerifyGPUCode_drop_outside simp_thms)
qed

theorem outside_allocations_ignored_witness:
  "drop_outside
     (AttrStmt (VariableNode (Variable ''A'' 7)) storage_scope (StringImm ''shared'')
       (Allocate (Variable ''A'' 7) 4 1024
         (ProducerConsumer True
           (AttrStmt (VariableNode (Variable ''B'' 8)) storage_scope (StringImm ''shared'')
             (Allocate (Variable ''B'' 8) 4 8 (Other []))))))
   = drop_outside
       (ProducerConsumer True
         (AttrStmt (VariableNode (Variable ''B'' 8)) storage_scope (StringImm ''shared'')
           (Allocate (Variable ''B'' 8) 4 8 (Other []))))
   \<and> VerifyGPUCode
     (AttrStmt (VariableNode (Variable ''A'' 7)) storage_scope (StringImm ''shared'')
       (Allocate (Variable ''A'' 7) 4 1024
         (ProducerConsumer True
           (AttrStmt (VariableNode (Variable ''B'' 8)) storage_scope (StringImm ''shared'')
             (Allocate (Variable ''B'' 8) 4 8 (Other []))))))
     [''max_shared_memory_per_block'' \<mapsto> IntImm 32] = Inr True"
proof -
  let ?R = "ProducerConsumer True
           (AttrStmt (VariableNode (Variable ''B'' 8)) storage_scope (StringImm ''shared'')
             (Allocate (Variable ''B'' 8) 4 8 (Other [])))"
  let ?t = "AttrStmt (VariableNode (Variable ''A'' 7)) storage_scope (StringImm ''shared'')
       (Allocate (Variable ''A'' 7) 4 1024 ?R)"
  let ?c = "[''max_shared_memory_per_block'' \<mapsto> IntImm 32]"
  have h: "drop_outside ?t = drop_outside ?R" by simp
  from outside_allocations_ignored [OF h, of ?c]
  have "VerifyGPUCode ?t ?c = VerifyGPUCode ?R ?c" by (elim conjE)
  also have "\<dots> = Inr True" by (simp add: eval_defs)
  finally show ?thesis using h by (simp only: simp_thms)
qed

end
